theory Spec2Isabelle
  imports Complex_Main
begin

section \<open>The thread extraction engine of \<^verbatim>\<open>app.py\<close>\<close>

text \<open>
  The development embeds \<^verbatim>\<open>resolve_ref\<close> and the handler \<^verbatim>\<open>scrape_comments\<close>
  of \<^verbatim>\<open>src/app.py\<close>. A string is a list of characters with code points
  below 256; on these, \<^verbatim>\<open>\d\<close> is \<^verbatim>\<open>0-9\<close> and \<^verbatim>\<open>\s\<close> is the set \<open>is_space\<close> below. A
  string with a code point from 256 on is outside the embedding.
\<close>

subsection \<open>Python values decoded from JSON\<close>

text \<open>
  \<^verbatim>\<open>json.loads\<close> yields \<^verbatim>\<open>None\<close>, \<^verbatim>\<open>bool\<close>, \<^verbatim>\<open>int\<close>, \<^verbatim>\<open>float\<close>, \<^verbatim>\<open>str\<close>,
  \<^verbatim>\<open>list\<close> and \<^verbatim>\<open>dict\<close> (keys are strings, kept in insertion order). A float is kept
  by its mathematical value, with the signed zero, the two infinities and NaN apart.
\<close>

datatype pyfloat = FFinite rat | FNegZero | FPosInf | FNegInf | FNan

datatype json =
    JNull
  | JBool bool
  | JInt int
  | JFloat pyfloat
  | JStr string
  | JList "json list"
  | JDict "(string \<times> json) list"

text \<open>\<^verbatim>\<open>isinstance(v, int)\<close>: Python's \<^verbatim>\<open>bool\<close> is a subclass of \<^verbatim>\<open>int\<close>, with
  \<^verbatim>\<open>True == 1\<close> and \<^verbatim>\<open>False == 0\<close>. The result is the integer value of the instance.\<close>

definition isinstance_int :: "json \<Rightarrow> int option" where
  "isinstance_int v =
     (case v of JInt i \<Rightarrow> Some i | JBool b \<Rightarrow> Some (if b then 1 else 0) | _ \<Rightarrow> None)"

subsection \<open>The reference resolver\<close>

text \<open>
  \<^verbatim>\<open>
  def resolve_ref(data, index):
      if isinstance(index, int) and 0 <= index < len(data):
          return data[index]
      return None
  \<close>
  \<^verbatim>\<open>data\<close> is a list wherever the handler calls it. \<^verbatim>\<open>None\<close> is \<open>JNull\<close>: the
  function has one return type, and a caller cannot tell an absent reference from a
  reference to \<^verbatim>\<open>null\<close>. The subscript is evaluated only in range, so no branch raises.
\<close>

definition resolve_ref :: "json list \<Rightarrow> json \<Rightarrow> json" where
  "resolve_ref data index =
     (case isinstance_int index of
        Some i \<Rightarrow> if 0 \<le> i \<and> i < int (length data) then data ! nat i else JNull
      | None \<Rightarrow> JNull)"

text \<open>The resolver as the specification words it: only a JSON integer is an index.\<close>

definition resolve_spec :: "json list \<Rightarrow> json \<Rightarrow> json" where
  "resolve_spec data index =
     (case index of
        JInt i \<Rightarrow> if 0 \<le> i \<and> i < int (length data) then data ! nat i else JNull
      | _ \<Rightarrow> JNull)"

subsection \<open>The thread URL and the cache filename\<close>

text \<open>The exceptions that leave the handler.\<close>

datatype error =
  IndexError | TypeError | ValueError | RecursionError | OSError | UnicodeEncodeError

definition is_digit :: "char \<Rightarrow> bool" where
  "is_digit c = (c \<in> set ''0123456789'')"

definition is_alpha :: "char \<Rightarrow> bool" where
  "is_alpha c = (c \<in> set ''abcdefghijklmnopqrstuvwxyzABCDEFGHIJKLMNOPQRSTUVWXYZ'')"

text \<open>\<^verbatim>\<open>s.split(sep)\<close> for a one-character separator: never the empty list.\<close>

fun split_on :: "char \<Rightarrow> string \<Rightarrow> string list" where
  "split_on sep [] = [[]]"
| "split_on sep (c # cs) =
     (if c = sep then [] # split_on sep cs
      else (case split_on sep cs of [] \<Rightarrow> [[c]] | seg # segs \<Rightarrow> (c # seg) # segs))"

text \<open>
  \<^verbatim>\<open>
  if "?" in base_url:
      base_url = base_url.split("?")[0]
  \<close>
\<close>

definition strip_query :: "string \<Rightarrow> string" where
  "strip_query url = (if CHR ''?'' \<in> set url then hd (split_on (CHR ''?'') url) else url)"

text \<open>
  \<^verbatim>\<open>re.search(r'/f/(\d+)', base_url)\<close>: the leftmost position where \<^verbatim>\<open>/f/\<close> and a digit
  follow; group 1 is the longest run of digits from there. \<open>deal_id_here\<close> is the match
  attempted at the head of the string.
\<close>

definition deal_id_here :: "string \<Rightarrow> string option" where
  "deal_id_here s =
     (case s of
        a # b # c # d # rest \<Rightarrow>
          if a = CHR ''/'' \<and> b = CHR ''f'' \<and> c = CHR ''/'' \<and> is_digit d
          then Some (d # takeWhile is_digit rest) else None
      | _ \<Rightarrow> None)"

fun deal_id_match :: "string \<Rightarrow> string option" where
  "deal_id_match [] = None"
| "deal_id_match (c # cs) =
     (case deal_id_here (c # cs) of Some g \<Rightarrow> Some g | None \<Rightarrow> deal_id_match cs)"

text \<open>
  \<^verbatim>\<open>
  slug = base_url.split('/')[-1] if base_url.split('/')[-1] else base_url.split('/')[-2]
  \<close>
  The subscript \<^verbatim>\<open>[-2]\<close> raises \<^verbatim>\<open>IndexError\<close> on a one-element list.
\<close>

definition url_slug :: "string \<Rightarrow> error + string" where
  "url_slug base_url =
     (let parts = split_on (CHR ''/'') base_url in
      if last parts \<noteq> [] then Inr (last parts)
      else if length parts < 2 then Inl IndexError
      else Inr (parts ! (length parts - 2)))"

text \<open>\<^verbatim>\<open>re.sub(r'[^a-zA-Z0-9\-]', '', slug)\<close> keeps the characters of this class.\<close>

definition safe_char :: "char \<Rightarrow> bool" where
  "safe_char c = (is_alpha c \<or> is_digit c \<or> c = CHR ''-'')"

text \<open>
  \<^verbatim>\<open>
  deal_id_match = re.search(r'/f/(\d+)', base_url)
  if deal_id_match:
      filename = f"deal_{deal_id_match.group(1)}.json"
  else:
      slug = ...
      safe_slug = re.sub(r'[^a-zA-Z0-9\-]', '', slug)
      filename = f"scrape_{safe_slug[:50]}.json"
  \<close>
\<close>

definition filename_of :: "string \<Rightarrow> error + string" where
  "filename_of base_url =
     (case deal_id_match base_url of
        Some g \<Rightarrow> Inr (''deal_'' @ g @ ''.json'')
      | None \<Rightarrow>
          (case url_slug base_url of
             Inl e \<Rightarrow> Inl e
           | Inr slug \<Rightarrow> Inr (''scrape_'' @ take 50 (filter safe_char slug) @ ''.json'')))"

text \<open>
  The specification's words for the two cases: the URL holds \<^verbatim>\<open>/f/\<close> followed by a
  digit somewhere, and the last non-empty piece between slashes.
\<close>

definition has_deal_id :: "string \<Rightarrow> bool" where
  "has_deal_id url = (\<exists>pre d rest. url = pre @ ''/f/'' @ d # rest \<and> is_digit d)"

definition last_nonempty_segment :: "string \<Rightarrow> string option" where
  "last_nonempty_segment url =
     (case filter (\<lambda>seg. seg \<noteq> []) (split_on (CHR ''/'') url) of
        [] \<Rightarrow> None | segs \<Rightarrow> Some (last segs))"

definition filename_spec :: "string \<Rightarrow> string option" where
  "filename_spec url =
     (case deal_id_match url of
        Some g \<Rightarrow> Some (''deal_'' @ g @ ''.json'')
      | None \<Rightarrow>
          (case last_nonempty_segment url of
             None \<Rightarrow> None
           | Some slug \<Rightarrow> Some (''scrape_'' @ take 50 (filter safe_char slug) @ ''.json'')))"

subsection \<open>Dictionaries, truth values and comparisons\<close>

text \<open>\<^verbatim>\<open>k in d\<close>, \<^verbatim>\<open>d.get(k)\<close> (also \<^verbatim>\<open>d[k]\<close> where the key is known to be present),
  \<^verbatim>\<open>d.get(k, default)\<close> and \<^verbatim>\<open>d[k] = v\<close>, which keeps the position of a key the
  dictionary already has and appends a new one.\<close>

definition has_key :: "(string \<times> json) list \<Rightarrow> string \<Rightarrow> bool" where
  "has_key d k = (map_of d k \<noteq> None)"

definition py_get :: "(string \<times> json) list \<Rightarrow> string \<Rightarrow> json" where
  "py_get d k = (case map_of d k of Some v \<Rightarrow> v | None \<Rightarrow> JNull)"

definition py_get_default :: "(string \<times> json) list \<Rightarrow> string \<Rightarrow> json \<Rightarrow> json" where
  "py_get_default d k dflt = (case map_of d k of Some v \<Rightarrow> v | None \<Rightarrow> dflt)"

fun dict_set :: "(string \<times> json) list \<Rightarrow> string \<Rightarrow> json \<Rightarrow> (string \<times> json) list" where
  "dict_set [] k v = [(k, v)]"
| "dict_set ((k', v') # d) k v = (if k' = k then (k, v) # d else (k', v') # dict_set d k v)"

text \<open>The truth value of an operand of \<^verbatim>\<open>or\<close>, and \<^verbatim>\<open>v or ""\<close>.\<close>

fun truthy :: "json \<Rightarrow> bool" where
  "truthy JNull = False"
| "truthy (JBool b) = b"
| "truthy (JInt i) = (i \<noteq> 0)"
| "truthy (JFloat f) = (f \<noteq> FFinite 0 \<and> f \<noteq> FNegZero)"
| "truthy (JStr s) = (s \<noteq> [])"
| "truthy (JList l) = (l \<noteq> [])"
| "truthy (JDict d) = (d \<noteq> [])"

definition or_empty :: "json \<Rightarrow> json" where
  "or_empty v = (if truthy v then v else JStr [])"

text \<open>\<^verbatim>\<open>n > v\<close> for an \<^verbatim>\<open>int\<close> \<open>n\<close>: defined against \<^verbatim>\<open>int\<close>, \<^verbatim>\<open>bool\<close> and \<^verbatim>\<open>float\<close>
  (compared exactly), a \<^verbatim>\<open>TypeError\<close> (\<open>None\<close>) against every other value.\<close>

definition int_gt_float :: "int \<Rightarrow> pyfloat \<Rightarrow> bool" where
  "int_gt_float n f =
     (case f of FFinite q \<Rightarrow> q < of_int n | FNegZero \<Rightarrow> 0 < n | FPosInf \<Rightarrow> False
      | FNegInf \<Rightarrow> True | FNan \<Rightarrow> False)"

definition py_gt :: "int \<Rightarrow> json \<Rightarrow> bool option" where
  "py_gt n v =
     (case v of
        JInt m \<Rightarrow> Some (m < n)
      | JBool b \<Rightarrow> Some ((if b then 1 else 0) < n)
      | JFloat f \<Rightarrow> Some (int_gt_float n f)
      | _ \<Rightarrow> None)"

text \<open>\<^verbatim>\<open>v != -1\<close> is false for the integer and for the float of that value.\<close>

definition is_minus_one :: "json \<Rightarrow> bool" where
  "is_minus_one v = (v = JInt (- 1) \<or> v = JFloat (FFinite (- 1)))"

subsection \<open>The world outside the handler\<close>

text \<open>
  What the handler reads of one HTTP response: \<^verbatim>\<open>parse_qs(urlparse(response.url).query).get('page')\<close>,
  and the outcome of \<^verbatim>\<open>re.search(pattern, html_content)\<close> followed by
  \<^verbatim>\<open>json.loads(match.group(1))\<close>: no match, a \<^verbatim>\<open>json.JSONDecodeError\<close> (\<open>BadJson\<close>),
  another exception of \<^verbatim>\<open>json.loads\<close> (a \<^verbatim>\<open>ValueError\<close> for an integer over the digit
  limit, a \<^verbatim>\<open>RecursionError\<close>), or the value.
\<close>

datatype nuxt = NoMatch | BadJson | LoadsRaises error | Parsed json

record response =
  final_page_list :: "string list option"
  nuxt_data :: nuxt

text \<open>
  The builtins and the network, as parameters: \<open>py_hash\<close> is \<^verbatim>\<open>hash\<close> on strings in
  this process, \<open>py_str\<close> is \<^verbatim>\<open>str\<close> on a value that is not a string, \<open>py_int\<close> is
  \<^verbatim>\<open>int\<close> on a string (\<open>None\<close> for \<^verbatim>\<open>ValueError\<close>), and \<open>requests_get\<close> maps a URL to
  the response (\<open>None\<close> when \<^verbatim>\<open>requests.get\<close>, \<^verbatim>\<open>raise_for_status\<close> or the URL
  parsing raises). The file system is a parameter as well: \<open>read_raises\<close> says that
  opening or reading an existing cache file raises, and \<open>file_write\<close> says how
  \<^verbatim>\<open>open(file_path, "w")\<close> and \<^verbatim>\<open>json.dump\<close> end for a filename and a record: the
  file is written, \<^verbatim>\<open>open\<close> raises (the file is left as it was), or \<^verbatim>\<open>json.dump\<close>
  raises after \<^verbatim>\<open>open\<close> has truncated the file (a lone surrogate in a string, a full
  disk), which leaves text that does not parse. \<^verbatim>\<open>os.makedirs(output_dir, exist_ok=True)\<close>
  is taken to succeed.
\<close>

datatype write_outcome = Written | OpenRaises error | DumpRaises error

record env =
  py_hash :: "string \<Rightarrow> int"
  py_str :: "json \<Rightarrow> string"
  py_int :: "string \<Rightarrow> int option"
  read_raises :: "string \<Rightarrow> bool"
  file_write :: "string \<Rightarrow> json \<Rightarrow> write_outcome"
  requests_get :: "string \<Rightarrow> response option"

text \<open>A cache file: its text parses as JSON, or \<^verbatim>\<open>json.load\<close> raises on it. The store
  maps a filename of \<^verbatim>\<open>scraped_data/\<close> to the file, when the file exists. What a
  completed \<^verbatim>\<open>json.dump\<close> writes is read back by \<^verbatim>\<open>json.load\<close> as the same value.\<close>

datatype cache_file = Corrupt | Json json

type_synonym store = "string \<Rightarrow> cache_file option"

record request =
  url :: string
  max_pages :: int
  force_refresh :: bool

subsection \<open>Deal metadata\<close>

text \<open>The characters below 256 that \<^verbatim>\<open>\s\<close> and \<^verbatim>\<open>str.strip()\<close> take as whitespace:
  TAB to CR, FS to US, the space, NEL (U+0085) and the no-break space (U+00A0).\<close>

definition is_space :: "char \<Rightarrow> bool" where
  "is_space c = (of_char c \<in> {9, 10, 11, 12, 13, 28, 29, 30, 31, 32, 133, 160 :: nat})"

text \<open>\<^verbatim>\<open>re.sub(r'<[^>]+>', ' ', s)\<close>: a \<^verbatim>\<open><\<close>, at least one character that is not
  \<^verbatim>\<open>>\<close>, and the next \<^verbatim>\<open>>\<close>.\<close>

function strip_tags :: "string \<Rightarrow> string" where
  "strip_tags [] = []"
| "strip_tags (c # cs) =
     (if c = CHR ''<'' \<and> takeWhile (\<lambda>x. x \<noteq> CHR ''>'') cs \<noteq> []
         \<and> dropWhile (\<lambda>x. x \<noteq> CHR ''>'') cs \<noteq> []
      then CHR '' '' # strip_tags (tl (dropWhile (\<lambda>x. x \<noteq> CHR ''>'') cs))
      else c # strip_tags cs)"
  by pat_completeness auto
termination
  by (relation "measure length")
     (auto intro: le_imp_less_Suc order_trans [OF diff_le_self length_dropWhile_le])

text \<open>\<^verbatim>\<open>re.sub(r'\s+', ' ', s)\<close> and \<^verbatim>\<open>s.strip()\<close>.\<close>

function collapse_ws :: "string \<Rightarrow> string" where
  "collapse_ws [] = []"
| "collapse_ws (c # cs) =
     (if is_space c then CHR '' '' # collapse_ws (dropWhile is_space cs)
      else c # collapse_ws cs)"
  by pat_completeness auto
termination
  by (relation "measure length") (auto intro: le_imp_less_Suc length_dropWhile_le)

definition py_strip :: "string \<Rightarrow> string" where
  "py_strip s = rev (dropWhile is_space (rev (dropWhile is_space s)))"

definition clean_html :: "string \<Rightarrow> string" where
  "clean_html body_html = py_strip (collapse_ws (strip_tags body_html))"

text \<open>
  \<^verbatim>\<open>
  main_block_idx = -1
  for i, item in enumerate(data):
      if isinstance(item, dict) and 'mainDesktopBlock' in item:
          main_block_idx = item['mainDesktopBlock']
          break
  \<close>
\<close>

fun find_main_block :: "json list \<Rightarrow> json" where
  "find_main_block [] = JInt (- 1)"
| "find_main_block (item # rest) =
     (case item of
        JDict d \<Rightarrow>
          if has_key d ''mainDesktopBlock'' then py_get d ''mainDesktopBlock''
          else find_main_block rest
      | _ \<Rightarrow> find_main_block rest)"

text \<open>The page-1 block of the handler; the pair is \<^verbatim>\<open>(deal_title, deal_description)\<close>.
  On a list no statement of the \<^verbatim>\<open>try\<close> suite raises.\<close>

definition extract_metadata :: "json list \<Rightarrow> string \<times> string \<Rightarrow> string \<times> string" where
  "extract_metadata data td =
     (let main_block_idx = find_main_block data in
      if is_minus_one main_block_idx then td
      else
        (case resolve_ref data main_block_idx of
           JDict main_block \<Rightarrow>
             (let title =
                    (if has_key main_block ''dealTitle'' then
                       (case resolve_ref data (py_get main_block ''dealTitle'') of
                          JStr title_val \<Rightarrow> title_val | _ \<Rightarrow> fst td)
                     else fst td);
                  description =
                    (if has_key main_block ''bodyHtml'' then
                       (case resolve_ref data (py_get main_block ''bodyHtml'') of
                          JStr body_html \<Rightarrow> clean_html body_html | _ \<Rightarrow> snd td)
                     else snd td)
              in (title, description))
         | _ \<Rightarrow> td))"

subsection \<open>The comment extractor\<close>

record comment =
  comment_type :: string
  comment_author :: json
  comment_text :: json
  comment_date :: json

text \<open>
  \<^verbatim>\<open>
  raw_text_obj = resolve_ref(data, text_idx)
  if isinstance(raw_text_obj, dict) and 'htmlContent' in raw_text_obj:
      html_content_idx = raw_text_obj.get('htmlContent')
      text = resolve_ref(data, html_content_idx) or ""
  else:
      text = raw_text_obj or ""
  \<close>
  (the same statements in both shapes).
\<close>

definition resolve_text :: "json list \<Rightarrow> json \<Rightarrow> json" where
  "resolve_text data text_idx =
     (let raw_text_obj = resolve_ref data text_idx in
      case raw_text_obj of
        JDict d \<Rightarrow>
          if has_key d ''htmlContent'' then or_empty (resolve_ref data (py_get d ''htmlContent''))
          else or_empty raw_text_obj
      | _ \<Rightarrow> or_empty raw_text_obj)"

text \<open>Type A, the body of \<^verbatim>\<open>if 'commentText' in item and 'author' in item\<close> up to the hash.\<close>

definition featured_comment :: "json list \<Rightarrow> (string \<times> json) list \<Rightarrow> comment" where
  "featured_comment data item =
     \<lparr>comment_type = ''Featured'',
      comment_author = or_empty (resolve_ref data (py_get item ''author'')),
      comment_text = resolve_text data (py_get item ''commentText''),
      comment_date =
        (if has_key item ''timestampFormatted''
         then or_empty (resolve_ref data (py_get item ''timestampFormatted''))
         else JStr [])\<rparr>"

text \<open>Type B, the body of \<^verbatim>\<open>if 'commentContent' in item and 'commentAuthor' in item\<close>.\<close>

definition main_comment :: "json list \<Rightarrow> (string \<times> json) list \<Rightarrow> comment" where
  "main_comment data item =
     \<lparr>comment_type = ''Main'',
      comment_author =
        (case resolve_ref data (py_get item ''commentAuthor'') of
           JDict author_obj \<Rightarrow>
             if has_key author_obj ''username''
             then or_empty (resolve_ref data (py_get author_obj ''username''))
             else JStr []
         | _ \<Rightarrow> JStr []),
      comment_text = resolve_text data (py_get item ''commentContent''),
      comment_date =
        (if has_key item ''commentSectionCommentFooter'' then
           (case resolve_ref data (py_get item ''commentSectionCommentFooter'') of
              JDict footer_obj \<Rightarrow>
                if has_key footer_obj ''timestampFormatted''
                then or_empty (resolve_ref data (py_get footer_obj ''timestampFormatted''))
                else JStr []
            | _ \<Rightarrow> JStr [])
         else JStr [])\<rparr>"

text \<open>\<^verbatim>\<open>hash(f"{author}|{date}|{text}")\<close>: a replacement field formats a string as
  itself and any other value by \<^verbatim>\<open>str\<close>.\<close>

definition fmt :: "env \<Rightarrow> json \<Rightarrow> string" where
  "fmt e v = (case v of JStr s \<Rightarrow> s | _ \<Rightarrow> py_str e v)"

definition comment_hash :: "env \<Rightarrow> comment \<Rightarrow> int" where
  "comment_hash e c =
     py_hash e (fmt e (comment_author c) @ ''|'' @ fmt e (comment_date c) @ ''|''
                @ fmt e (comment_text c))"

text \<open>The variables the extraction loop of one page updates.\<close>

record extraction =
  seen :: "int set"
  new_comments_on_this_page :: nat
  page_comments :: "comment list"

text \<open>
  \<^verbatim>\<open>
  if comment_hash not in seen_comments_hashes:
      seen_comments_hashes.add(comment_hash)
      new_comments_on_this_page += 1
      page_comments.append({...})
  \<close>
\<close>

definition add_comment :: "env \<Rightarrow> comment \<Rightarrow> extraction \<Rightarrow> extraction" where
  "add_comment e c ex =
     (if comment_hash e c \<notin> seen ex
      then ex\<lparr>seen := insert (comment_hash e c) (seen ex),
              new_comments_on_this_page := new_comments_on_this_page ex + 1,
              page_comments := page_comments ex @ [c]\<rparr>
      else ex)"

text \<open>The body of \<^verbatim>\<open>for item in data\<close>: both shapes are tried on every object.\<close>

definition extract_item :: "env \<Rightarrow> json list \<Rightarrow> json \<Rightarrow> extraction \<Rightarrow> extraction" where
  "extract_item e data item ex =
     (case item of
        JDict d \<Rightarrow>
          (let ex1 =
                 (if has_key d ''commentText'' \<and> has_key d ''author''
                  then add_comment e (featured_comment data d) ex else ex)
           in if has_key d ''commentContent'' \<and> has_key d ''commentAuthor''
              then add_comment e (main_comment data d) ex1 else ex1)
      | _ \<Rightarrow> ex)"

definition extract_comments :: "env \<Rightarrow> json list \<Rightarrow> int set \<Rightarrow> extraction" where
  "extract_comments e data seen_comments_hashes =
     foldl (\<lambda>ex item. extract_item e data item ex)
       \<lparr>seen = seen_comments_hashes, new_comments_on_this_page = 0, page_comments = []\<rparr>
       data"

text \<open>The comments a page holds before deduplication, in document order: what the
  specification calls the extracted comments.\<close>

definition item_candidates :: "json list \<Rightarrow> json \<Rightarrow> comment list" where
  "item_candidates data item =
     (case item of
        JDict d \<Rightarrow>
          (if has_key d ''commentText'' \<and> has_key d ''author''
           then [featured_comment data d] else [])
          @ (if has_key d ''commentContent'' \<and> has_key d ''commentAuthor''
             then [main_comment data d] else [])
      | _ \<Rightarrow> [])"

definition candidates :: "json list \<Rightarrow> comment list" where
  "candidates data = concat (map (item_candidates data) data)"

subsection \<open>The pagination loop\<close>

text \<open>The handler's variables that live across pages, and the URLs requested so far.\<close>

record scrape_state =
  seen_comments_hashes :: "int set"
  deal_title :: string
  deal_description :: string
  all_comments :: "comment list"
  fetched :: "string list"

definition init_state :: scrape_state where
  "init_state =
     \<lparr>seen_comments_hashes = {}, deal_title = [], deal_description = [],
      all_comments = [], fetched = []\<rparr>"

text \<open>How one iteration of \<^verbatim>\<open>for page in range(1, max_pages + 1)\<close> ends.\<close>

datatype step = Continue scrape_state | Break scrape_state | Raise error scrape_state

text \<open>\<^verbatim>\<open>str(page)\<close> for the page numbers of the loop.\<close>

function string_of_nat :: "nat \<Rightarrow> string" where
  "string_of_nat n =
     (if n < 10 then [''0123456789'' ! n]
      else string_of_nat (n div 10) @ [''0123456789'' ! (n mod 10)])"
  by pat_completeness auto
termination
  by (relation "measure id") auto

declare string_of_nat.simps [simp del]

definition page_url :: "string \<Rightarrow> nat \<Rightarrow> string" where
  "page_url base_url page = base_url @ ''?sort=oldest&page='' @ string_of_nat page"

text \<open>
  \<^verbatim>\<open>
  final_page_list = query_params.get('page')
  if final_page_list:
      final_page = int(final_page_list[0])
      if final_page != page: break
  else:
      break
  \<close>
  A \<^verbatim>\<open>ValueError\<close> of \<^verbatim>\<open>int\<close> is caught by the \<^verbatim>\<open>except Exception\<close> of the fetch, which
  breaks as well.
\<close>

definition redirected :: "env \<Rightarrow> response \<Rightarrow> nat \<Rightarrow> bool" where
  "redirected e r page =
     (case final_page_list r of
        None \<Rightarrow> True
      | Some [] \<Rightarrow> True
      | Some (v # _) \<Rightarrow>
          (case py_int e v of None \<Rightarrow> True | Some final_page \<Rightarrow> final_page \<noteq> int page))"

text \<open>
  From the metadata block to the end of the loop body. \<^verbatim>\<open>for item in data\<close> raises
  \<^verbatim>\<open>TypeError\<close> on \<^verbatim>\<open>None\<close>, a boolean and a number; on an object or a string it
  iterates over strings, so neither metadata nor a comment is found.
\<close>

definition process_data :: "env \<Rightarrow> nat \<Rightarrow> json \<Rightarrow> scrape_state \<Rightarrow> step" where
  "process_data e page data st =
     (case data of
        JList items \<Rightarrow>
          (let td = (if page = 1
                     then extract_metadata items (deal_title st, deal_description st)
                     else (deal_title st, deal_description st));
               ex = extract_comments e items (seen_comments_hashes st);
               st1 = st\<lparr>deal_title := fst td, deal_description := snd td,
                        seen_comments_hashes := seen ex\<rparr>
           in if new_comments_on_this_page ex = 0 then Break st1
              else Continue (st1\<lparr>all_comments := all_comments st1 @ page_comments ex\<rparr>))
      | JDict d \<Rightarrow> Break st
      | JStr s \<Rightarrow> Break st
      | _ \<Rightarrow> Raise TypeError st)"

definition scrape_page :: "env \<Rightarrow> string \<Rightarrow> nat \<Rightarrow> scrape_state \<Rightarrow> step" where
  "scrape_page e base_url page st =
     (let current_url = page_url base_url page;
          st0 = st\<lparr>fetched := fetched st @ [current_url]\<rparr>
      in case requests_get e current_url of
           None \<Rightarrow> Break st0
         | Some r \<Rightarrow>
             if 1 < page \<and> redirected e r page then Break st0
             else
               (case nuxt_data r of
                  NoMatch \<Rightarrow> Break st0
                | BadJson \<Rightarrow> Break st0
                | LoadsRaises err \<Rightarrow> Raise err st0
                | Parsed data \<Rightarrow> process_data e page data st0))"

text \<open>The loop, from \<open>page\<close> on with \<open>n\<close> iterations left: the exception that left it,
  if any, and the state at that point.\<close>

fun scrape_loop ::
  "env \<Rightarrow> string \<Rightarrow> nat \<Rightarrow> nat \<Rightarrow> scrape_state \<Rightarrow> error option \<times> scrape_state" where
  "scrape_loop e base_url page 0 st = (None, st)"
| "scrape_loop e base_url page (Suc n) st =
     (case scrape_page e base_url page st of
        Continue st' \<Rightarrow> scrape_loop e base_url (Suc page) n st'
      | Break st' \<Rightarrow> (None, st')
      | Raise err st' \<Rightarrow> (Some err, st'))"

text \<open>The state in which the loop enters page \<open>k + 1\<close>: pages \<open>1..k\<close> have all run to
  the end of the loop body. \<open>None\<close> when the loop was left before.\<close>

fun after_pages :: "env \<Rightarrow> string \<Rightarrow> nat \<Rightarrow> scrape_state option" where
  "after_pages e base_url 0 = Some init_state"
| "after_pages e base_url (Suc k) =
     (case after_pages e base_url k of
        None \<Rightarrow> None
      | Some st \<Rightarrow>
          (case scrape_page e base_url (Suc k) st of Continue st' \<Rightarrow> Some st' | _ \<Rightarrow> None))"

subsection \<open>The handler\<close>

definition comment_json :: "comment \<Rightarrow> json" where
  "comment_json c =
     JDict [(''type'', JStr (comment_type c)), (''author'', comment_author c),
            (''text'', comment_text c), (''date'', comment_date c)]"

definition result_json :: "scrape_state \<Rightarrow> string \<Rightarrow> int \<Rightarrow> json" where
  "result_json st filename n =
     JDict [(''deal_title'', JStr (deal_title st)),
            (''deal_description'', JStr (deal_description st)),
            (''count'', JInt (int (length (all_comments st)))),
            (''comments'', JList (map comment_json (all_comments st))),
            (''saved_to'', JStr filename),
            (''source'', JStr ''scrape''),
            (''max_pages_request'', JInt n)]"

text \<open>
  \<^verbatim>\<open>
  cached_data = json.load(f)
  cached_max_pages = cached_data.get("max_pages_request", 0)
  if max_pages > cached_max_pages: ...
  else:
      cached_data["source"] = "cache"
      return cached_data
  \<close>
  inside \<^verbatim>\<open>try ... except Exception\<close>: \<open>Some\<close> is the record returned, \<open>None\<close> means
  the handler goes on to scrape (a deeper request, an unreadable file, a value without
  \<^verbatim>\<open>get\<close>, or a depth that does not compare with an integer).
\<close>

definition cache_check :: "int \<Rightarrow> cache_file \<Rightarrow> json option" where
  "cache_check n f =
     (case f of
        Corrupt \<Rightarrow> None
      | Json cached_data \<Rightarrow>
          (case cached_data of
             JDict d \<Rightarrow>
               (case py_gt n (py_get_default d ''max_pages_request'' (JInt 0)) of
                  None \<Rightarrow> None
                | Some True \<Rightarrow> None
                | Some False \<Rightarrow> Some (JDict (dict_set d ''source'' (JStr ''cache''))))
           | _ \<Rightarrow> None))"

text \<open>
  \<^verbatim>\<open>
  with open(file_path, "w", encoding="utf-8") as f:
      json.dump(result, f, indent=2, ensure_ascii=False)
  return result
  \<close>
  The handler's outcome is what it returns or raises, the store it leaves and the URLs
  it has requested.
\<close>

definition write_and_return ::
  "env \<Rightarrow> store \<Rightarrow> string \<Rightarrow> json \<Rightarrow> string list \<Rightarrow> (error + json) \<times> store \<times> string list" where
  "write_and_return e fs filename result urls =
     (case file_write e filename result of
        Written \<Rightarrow> (Inr result, fs(filename \<mapsto> Json result), urls)
      | OpenRaises err \<Rightarrow> (Inl err, fs, urls)
      | DumpRaises err \<Rightarrow> (Inl err, fs(filename \<mapsto> Corrupt), urls))"

text \<open>From \<^verbatim>\<open>seen_comments_hashes = set()\<close> to \<^verbatim>\<open>return result\<close>. An exception of the
  loop leaves before the write.\<close>

definition fresh_scrape ::
  "env \<Rightarrow> store \<Rightarrow> string \<Rightarrow> string \<Rightarrow> int \<Rightarrow> (error + json) \<times> store \<times> string list" where
  "fresh_scrape e fs base_url filename n =
     (case scrape_loop e base_url 1 (nat n) init_state of
        (Some err, st) \<Rightarrow> (Inl err, fs, fetched st)
      | (None, st) \<Rightarrow> write_and_return e fs filename (result_json st filename n) (fetched st))"

text \<open>Reading a returned or stored record.\<close>

definition json_field :: "json \<Rightarrow> string \<Rightarrow> json option" where
  "json_field v k = (case v of JDict d \<Rightarrow> map_of d k | _ \<Rightarrow> None)"

definition result_comments :: "json \<Rightarrow> json list" where
  "result_comments v = (case json_field v ''comments'' of Some (JList cs) \<Rightarrow> cs | _ \<Rightarrow> [])"

definition comment_triple :: "json \<Rightarrow> json option \<times> json option \<times> json option" where
  "comment_triple c = (json_field c ''author'', json_field c ''date'', json_field c ''text'')"

text \<open>The cache check of the handler: \<^verbatim>\<open>if not force_refresh and os.path.exists(file_path)\<close>
  and the \<^verbatim>\<open>try\<close> suite under it, of which \<^verbatim>\<open>open(file_path, "r")\<close> is the first
  statement.\<close>

definition cached_reply :: "env \<Rightarrow> store \<Rightarrow> request \<Rightarrow> string \<Rightarrow> json option" where
  "cached_reply e fs req filename =
     (if \<not> force_refresh req
      then (case fs filename of
              Some f \<Rightarrow> if read_raises e filename then None else cache_check (max_pages req) f
            | None \<Rightarrow> None)
      else None)"

definition scrape_comments ::
  "env \<Rightarrow> store \<Rightarrow> request \<Rightarrow> (error + json) \<times> store \<times> string list" where
  "scrape_comments e fs req =
     (let base_url = strip_query (url req) in
      case filename_of base_url of
        Inl err \<Rightarrow> (Inl err, fs, [])
      | Inr filename \<Rightarrow>
          (case cached_reply e fs req filename of
             Some cached_data \<Rightarrow> (Inr cached_data, fs, [])
           | None \<Rightarrow> fresh_scrape e fs base_url filename (max_pages req)))"

text \<open>A sequence of requests, each in the world of its time.\<close>

fun run_requests :: "store \<Rightarrow> (env \<times> request) list \<Rightarrow> store" where
  "run_requests fs [] = fs"
| "run_requests fs ((e, req) # rest) = run_requests (fst (snd (scrape_comments e fs req))) rest"

text \<open>The depth a cache file records, when it holds a record with an integer depth.\<close>

definition stored_depth :: "store \<Rightarrow> string \<Rightarrow> int option" where
  "stored_depth fs filename =
     (case fs filename of
        Some (Json v) \<Rightarrow>
          (case json_field v ''max_pages_request'' of Some (JInt m) \<Rightarrow> Some m | _ \<Rightarrow> None)
      | _ \<Rightarrow> None)"

subsection \<open>A sample thread\<close>

text \<open>A thread whose first page holds one featured comment; the response to the
  second request is left open.\<close>

definition sample_page :: response where
  "sample_page =
     \<lparr>final_page_list = Some [''2''],
      nuxt_data = Parsed (JList [JDict [(''commentText'', JInt 1), (''author'', JInt 2)],
                                 JStr ''hi'', JStr ''bob''])\<rparr>"

definition sample_env :: "response option \<Rightarrow> env" where
  "sample_env second =
     \<lparr>py_hash = (\<lambda>s. int (length s)),
      py_str = (\<lambda>v. []),
      py_int = (\<lambda>s. if s = ''1'' then Some 1 else if s = ''2'' then Some 2 else None),
      read_raises = (\<lambda>f. False), file_write = (\<lambda>f v. Written),
      requests_get =
        (\<lambda>u. if u = ''http://x/f/1?sort=oldest&page=1'' then Some sample_page
             else if u = ''http://x/f/1?sort=oldest&page=2'' then second
             else None)\<rparr>"

definition sample_request :: "int \<Rightarrow> bool \<Rightarrow> request" where
  "sample_request n force = \<lparr>url = ''http://x/f/1?utm=a'', max_pages = n, force_refresh = force\<rparr>"

definition sample_state :: scrape_state where
  "sample_state =
     \<lparr>seen_comments_hashes = {7}, deal_title = [], deal_description = [],
      all_comments = [\<lparr>comment_type = ''Featured'', comment_author = JStr ''bob'',
                       comment_text = JStr ''hi'', comment_date = JStr []\<rparr>],
      fetched = [''http://x/f/1?sort=oldest&page=1'']\<rparr>"

text \<open>A world in which every request fails, and one whose first page names a title
  but holds no comment.\<close>

definition dead_env :: env where
  "dead_env =
     \<lparr>py_hash = (\<lambda>s. int (length s)), py_str = (\<lambda>v. []), py_int = (\<lambda>s. None),
      read_raises = (\<lambda>f. False), file_write = (\<lambda>f v. Written),
      requests_get = (\<lambda>u. None)\<rparr>"

definition titled_env :: env where
  "titled_env =
     \<lparr>py_hash = (\<lambda>s. int (length s)), py_str = (\<lambda>v. []), py_int = (\<lambda>s. None),
      read_raises = (\<lambda>f. False), file_write = (\<lambda>f v. Written),
      requests_get =
        (\<lambda>u. if u = ''http://x/f/1?sort=oldest&page=1''
             then Some \<lparr>final_page_list = None,
                        nuxt_data = Parsed (JList [JDict [(''mainDesktopBlock'', JInt 1)],
                                                   JDict [(''dealTitle'', JInt 2)],
                                                   JStr ''Great deal''])\<rparr>
             else None)\<rparr>"

definition empty_record :: "string \<Rightarrow> int \<Rightarrow> json" where
  "empty_record filename n =
     JDict [(''deal_title'', JStr []), (''deal_description'', JStr []), (''count'', JInt 0),
            (''comments'', JList []), (''saved_to'', JStr filename),
            (''source'', JStr ''scrape''), (''max_pages_request'', JInt n)]"

text \<open>A store that already holds a record of depth 5 for the sample thread.\<close>

definition stale_store :: store where
  "stale_store = [''deal_1.json'' \<mapsto> Json (JDict [(''max_pages_request'', JInt 5)])]"

text \<open>The invariant of the loop: the hashes seen are those of the comments accumulated,
  and no two accumulated comments share a hash.\<close>

definition dedup_inv :: "env \<Rightarrow> scrape_state \<Rightarrow> bool" where
  "dedup_inv e st =
     (seen_comments_hashes st = comment_hash e ` set (all_comments st)
      \<and> distinct (map (comment_hash e) (all_comments st)))"

text \<open>A thread of two pages: on page 1 one object matches both shapes with the same
  author and text; page 2 repeats that comment in the main shape and adds a new one.\<close>

definition twin_env :: env where
  "twin_env =
     \<lparr>py_hash = (\<lambda>s. int (length s)), py_str = (\<lambda>v. []),
      py_int = (\<lambda>s. if s = ''2'' then Some 2 else None),
      read_raises = (\<lambda>f. False), file_write = (\<lambda>f v. Written),
      requests_get =
        (\<lambda>u. if u = ''http://x/f/1?sort=oldest&page=1'' then
               Some \<lparr>final_page_list = None,
                     nuxt_data = Parsed (JList
                       [JDict [(''commentText'', JInt 1), (''author'', JInt 2),
                               (''commentContent'', JInt 1), (''commentAuthor'', JInt 3)],
                        JStr ''hi'', JStr ''bob'', JDict [(''username'', JInt 2)]])\<rparr>
             else if u = ''http://x/f/1?sort=oldest&page=2'' then
               Some \<lparr>final_page_list = Some [''2''],
                     nuxt_data = Parsed (JList
                       [JDict [(''commentContent'', JInt 1), (''commentAuthor'', JInt 3)],
                        JStr ''hi'', JStr ''bob'', JDict [(''username'', JInt 2)],
                        JDict [(''commentText'', JInt 5), (''author'', JInt 2)],
                        JStr ''hello''])\<rparr>
             else None)\<rparr>"


text \<open>A thread of one page with three extracted comments: a featured one with author
  \<open>a\<close>, date \<open>b|c\<close> and text \<open>d\<close>, then an object matching both shapes with author \<open>a|b\<close>,
  date \<open>c\<close> and text \<open>d\<close>.\<close>

definition clash_items :: "json list" where
  "clash_items =
     [JDict [(''commentText'', JInt 2), (''author'', JInt 3), (''timestampFormatted'', JInt 4)],
      JDict [(''commentText'', JInt 2), (''author'', JInt 5), (''timestampFormatted'', JInt 6),
             (''commentContent'', JInt 2), (''commentAuthor'', JInt 7),
             (''commentSectionCommentFooter'', JInt 8)],
      JStr ''d'', JStr ''a'', JStr ''b|c'', JStr ''a|b'', JStr ''c'',
      JDict [(''username'', JInt 5)], JDict [(''timestampFormatted'', JInt 6)]]"

definition clash_env :: env where
  "clash_env =
     \<lparr>py_hash = (\<lambda>s. int (length s)), py_str = (\<lambda>v. []), py_int = (\<lambda>s. None),
      read_raises = (\<lambda>f. False), file_write = (\<lambda>f v. Written),
      requests_get =
        (\<lambda>u. if u = ''http://x/f/1?sort=oldest&page=1''
             then Some \<lparr>final_page_list = None, nuxt_data = Parsed (JList clash_items)\<rparr>
             else None)\<rparr>"

section \<open>Properties\<close>

subsection \<open>Reference resolver\<close>

lemma resolve_ref_JInt:
  "resolve_ref data (JInt i) = (if 0 \<le> i \<and> i < int (length data) then data ! nat i else JNull)"
  by (simp add: resolve_ref_def isinstance_int_def)

lemma resolve_ref_JBool:
  "resolve_ref data (JBool b) =
     (if (if b then 1 else 0) < length data then data ! (if b then 1 else 0) else JNull)"
  by (simp add: resolve_ref_def isinstance_int_def)

lemma resolve_ref_other:
  "resolve_ref data JNull = JNull" "resolve_ref data (JFloat f) = JNull"
  "resolve_ref data (JStr s) = JNull" "resolve_ref data (JList l) = JNull"
  "resolve_ref data (JDict d) = JNull"
  by (simp_all add: resolve_ref_def isinstance_int_def)

text \<open>
  C1 (as stated, refuted): a boolean index is not a JSON integer, yet the resolver
  returns an element for it where the specification's resolver returns absent.
\<close>

theorem resolve_ref_bool_counterexample:
  "resolve_ref [JStr ''a'', JStr ''b''] (JBool True) = JStr ''b''
   \<and> resolve_spec [JStr ''a'', JStr ''b''] (JBool True) = JNull"
  by (simp add: resolve_ref_JBool resolve_spec_def)

text \<open>
  C1 (amended): for every list \<open>data\<close> and every index value, the resolver returns
  \<open>data[index]\<close> exactly when the index is an integer, or a boolean read as 1 or 0, that
  lies in \<open>[0, len(data))\<close>; for a negative or out-of-range integer, an out-of-range
  boolean, a float, a string, a list, an object and null it returns \<open>None\<close>. The function
  is total: no input makes it raise.
\<close>

theorem resolve_ref_bounds:
  "(\<forall>i. 0 \<le> i \<and> i < int (length data) \<longrightarrow> resolve_ref data (JInt i) = data ! nat i)
   \<and> (\<forall>i. i < 0 \<or> int (length data) \<le> i \<longrightarrow> resolve_ref data (JInt i) = JNull)
   \<and> (1 < length data \<longrightarrow> resolve_ref data (JBool True) = data ! 1)
   \<and> (0 < length data \<longrightarrow> resolve_ref data (JBool False) = data ! 0)
   \<and> (length data \<le> 1 \<longrightarrow> resolve_ref data (JBool True) = JNull)
   \<and> (length data = 0 \<longrightarrow> resolve_ref data (JBool False) = JNull)
   \<and> resolve_ref data JNull = JNull
   \<and> (\<forall>f. resolve_ref data (JFloat f) = JNull)
   \<and> (\<forall>s. resolve_ref data (JStr s) = JNull)
   \<and> (\<forall>l. resolve_ref data (JList l) = JNull)
   \<and> (\<forall>d. resolve_ref data (JDict d) = JNull)"
  by (auto simp: resolve_ref_JInt resolve_ref_JBool resolve_ref_other)

theorem resolve_ref_bounds_witness:
  "resolve_ref [JStr ''a'', JStr ''b''] (JInt 1) = JStr ''b''
   \<and> resolve_ref [JStr ''a'', JStr ''b''] (JInt 2) = JNull
   \<and> resolve_ref [JStr ''a'', JStr ''b''] (JInt (- 1)) = JNull
   \<and> resolve_ref [JStr ''a'', JStr ''b''] (JBool True) = JStr ''b''
   \<and> resolve_ref [JStr ''a'', JStr ''b''] (JBool False) = JStr ''a''
   \<and> resolve_ref [JStr ''a''] (JBool True) = JNull
   \<and> resolve_ref [] (JBool False) = JNull
   \<and> resolve_ref [JStr ''a'', JStr ''b''] (JStr ''1'') = JNull"
  using resolve_ref_bounds [of "[JStr ''a'', JStr ''b'']"]
    resolve_ref_bounds [of "[JStr ''a'']"] resolve_ref_bounds [of "[]"]
  by simp

text \<open>
  C10: a boolean index is taken as an integer index, not as absent: on every \<open>data\<close>
  with at least two elements, \<open>true\<close> resolves to \<open>data[1]\<close> and \<open>false\<close> to \<open>data[0]\<close>.
\<close>

theorem resolve_ref_bool_index:
  "2 \<le> length data \<Longrightarrow>
     resolve_ref data (JBool True) = data ! 1 \<and> resolve_ref data (JBool False) = data ! 0"
  by (cases data) (auto simp: resolve_ref_JBool)

theorem resolve_ref_bool_index_witness:
  "2 \<le> length [JInt 7, JStr ''x'', JNull]
   \<and> resolve_ref [JInt 7, JStr ''x'', JNull] (JBool True) = JStr ''x''
   \<and> resolve_ref [JInt 7, JStr ''x'', JNull] (JBool False) = JInt 7"
  using resolve_ref_bool_index [of "[JInt 7, JStr ''x'', JNull]"] by simp

subsection \<open>Cache filename\<close>

lemma split_on_ne[simp]: "split_on sep s \<noteq> []"
  by (induction s) (auto split: list.splits)

lemma split_on_none: "sep \<notin> set s \<Longrightarrow> split_on sep s = [s]"
  by (induction s) (auto split: list.splits)

lemma split_on_append: "split_on sep (xs @ sep # ys) = split_on sep xs @ split_on sep ys"
  by (induction xs) (auto split: list.splits)

lemma split_on_empty_iff: "split_on sep s = [[]] \<longleftrightarrow> s = []"
  by (cases s) (auto split: list.splits)

lemma split_on_last_empty: "last (split_on sep s) = [] \<longleftrightarrow> (s = [] \<or> last s = sep)"
proof (induction s)
  case Nil then show ?case by simp
next
  case (Cons c cs)
  show ?case
  proof (cases "cs = []")
    case True then show ?thesis by simp
  next
    case False
    obtain seg segs where sp: "split_on sep cs = seg # segs"
      using split_on_ne[of sep cs] by (cases "split_on sep cs") auto
    have "segs \<noteq> [] \<or> seg \<noteq> []"
      using sp split_on_empty_iff[of sep cs] False by auto
    then show ?thesis using Cons False sp by (auto split: if_splits)
  qed
qed

lemma not_digit_path: "\<not> is_digit (CHR ''/'')" "\<not> is_digit (CHR ''f'')"
  by (simp_all add: is_digit_def)

lemma deal_id_here_Some: "deal_id_here s = Some g \<Longrightarrow> has_deal_id s"
  unfolding deal_id_here_def has_deal_id_def
  by (auto split: list.splits if_splits intro!: exI[of _ "[]"])

lemma has_deal_id_Cons: "has_deal_id cs \<Longrightarrow> has_deal_id (c # cs)"
  unfolding has_deal_id_def
  by (metis append_Cons)

lemma deal_id_match_Some: "deal_id_match u = Some g \<Longrightarrow> has_deal_id u"
  by (induction u) (auto split: option.splits dest: deal_id_here_Some has_deal_id_Cons)

lemma deal_id_here_at: "is_digit d \<Longrightarrow> deal_id_here (''/f/'' @ d # r) = Some (d # takeWhile is_digit r)"
  by (simp add: deal_id_here_def)

lemma deal_id_here_straddle:
  assumes "deal_id_here (c # cs) = None"
  shows "deal_id_here (c # cs @ ''/f/'' @ d # r) = None"
proof (cases cs)
  case Nil then show ?thesis by (simp add: deal_id_here_def)
next
  case (Cons a as)
  show ?thesis
  proof (cases as)
    case Nil with Cons show ?thesis by (simp add: deal_id_here_def not_digit_path)
  next
    case (Cons b bs)
    note c2 = Cons
    show ?thesis
    proof (cases bs)
      case Nil with c2 \<open>cs = a # as\<close> show ?thesis by (simp add: deal_id_here_def not_digit_path)
    next
      case (Cons e es)
      with c2 \<open>cs = a # as\<close> assms show ?thesis
        by (auto simp: deal_id_here_def split: if_splits)
    qed
  qed
qed

lemma deal_id_match_leftmost:
  "deal_id_match pre = None \<Longrightarrow> is_digit d \<Longrightarrow>
     deal_id_match (pre @ ''/f/'' @ d # r) = Some (d # takeWhile is_digit r)"
proof (induction pre)
  case Nil
  then show ?case using deal_id_here_at[of d r] by simp
next
  case (Cons c cs)
  from Cons.prems have h: "deal_id_here (c # cs) = None" and m: "deal_id_match cs = None"
    by (auto split: option.splits)
  from deal_id_here_straddle[OF h, of d r] Cons.IH[OF m Cons.prems(2)]
  show ?case by simp
qed

lemma has_deal_id_match: "has_deal_id u \<Longrightarrow> deal_id_match u \<noteq> None"
proof -
  assume "has_deal_id u"
  then obtain pre d rest where u: "u = pre @ ''/f/'' @ d # rest" and d: "is_digit d"
    unfolding has_deal_id_def by blast
  have "deal_id_match (pre @ ''/f/'' @ d # rest) \<noteq> None"
  proof (induction pre)
    case Nil
    then show ?case using deal_id_here_at[OF d, of rest] by simp
  next
    case (Cons c cs)
    then show ?case by (auto split: option.splits)
  qed
  with u show ?thesis by simp
qed

lemma deal_id_match_None_iff: "deal_id_match u = None \<longleftrightarrow> \<not> has_deal_id u"
proof
  assume "deal_id_match u = None"
  then show "\<not> has_deal_id u" using has_deal_id_match by blast
next
  assume "\<not> has_deal_id u"
  then show "deal_id_match u = None"
    using deal_id_match_Some by (cases "deal_id_match u") auto
qed

lemma takeWhile_digits:
  "\<forall>c\<in>set ds. is_digit c \<Longrightarrow> rest = [] \<or> \<not> is_digit (hd rest) \<Longrightarrow>
     takeWhile is_digit (ds @ rest) = ds"
  by (cases rest) (auto simp: takeWhile_append)

lemma last_filter_keep: "xs \<noteq> [] \<Longrightarrow> P (last xs) \<Longrightarrow> last (filter P xs) = last xs"
  by (cases xs rule: rev_cases) auto

lemma url_slug_last:
  "CHR ''/'' \<notin> set slug \<Longrightarrow> slug \<noteq> [] \<Longrightarrow> u = slug \<or> (\<exists>p. u = p @ CHR ''/'' # slug) \<Longrightarrow>
     url_slug u = Inr slug"
  by (auto simp: url_slug_def Let_def split_on_none split_on_append)

lemma url_slug_trailing:
  "CHR ''/'' \<notin> set slug \<Longrightarrow> u = slug @ ''/'' \<or> (\<exists>p. u = p @ CHR ''/'' # slug @ ''/'') \<Longrightarrow>
     url_slug u = Inr slug"
  by (auto simp: url_slug_def Let_def split_on_none split_on_append nth_append)

lemma url_slug_spec:
  assumes "\<not> (\<exists>p. u = p @ ''//'')" and "last_nonempty_segment u = Some slug"
  shows "url_slug u = Inr slug"
proof (cases "last (split_on (CHR ''/'') u) = []")
  case False
  then have "last (filter (\<lambda>seg. seg \<noteq> []) (split_on (CHR ''/'') u)) = last (split_on (CHR ''/'') u)"
    by (simp add: last_filter_keep)
  with assms(2) False show ?thesis
    by (auto simp: url_slug_def Let_def last_nonempty_segment_def split: list.splits)
next
  case True
  have ne: "u \<noteq> []" using assms(2) by (auto simp: last_nonempty_segment_def)
  with True have "last u = CHR ''/''" by (simp add: split_on_last_empty)
  with ne obtain p where u: "u = p @ ''/''" by (metis append_butlast_last_id)
  have sp: "split_on (CHR ''/'') u = split_on (CHR ''/'') p @ [[]]"
    using u split_on_append[of "CHR ''/''" p "[]"] by simp
  have pne: "p \<noteq> []" using assms(2) u by (auto simp: last_nonempty_segment_def)
  have "last p \<noteq> CHR ''/''"
  proof
    assume "last p = CHR ''/''"
    with pne obtain q where "p = q @ ''/''" by (metis append_butlast_last_id)
    with u assms(1) show False by simp
  qed
  with pne have l: "last (split_on (CHR ''/'') p) \<noteq> []" by (simp add: split_on_last_empty)
  then have "last (filter (\<lambda>seg. seg \<noteq> []) (split_on (CHR ''/'') p)) = last (split_on (CHR ''/'') p)"
    by (simp add: last_filter_keep)
  moreover have "filter (\<lambda>seg. seg \<noteq> []) (split_on (CHR ''/'') p) \<noteq> []"
    using l by (metis (mono_tags, lifting) filter_empty_conv last_in_set split_on_ne)
  ultimately have "slug = last (split_on (CHR ''/'') p)"
    using assms(2) sp by (auto simp: last_nonempty_segment_def split: list.splits)
  then show ?thesis using sp
    by (simp add: url_slug_def Let_def nth_append last_conv_nth)
qed

lemma filename_of_deal:
  assumes "\<not> has_deal_id pre" "ds \<noteq> []" "\<forall>c\<in>set ds. is_digit c"
    "rest = [] \<or> \<not> is_digit (hd rest)"
  shows "filename_of (pre @ ''/f/'' @ ds @ rest) = Inr (''deal_'' @ ds @ ''.json'')"
proof -
  obtain d ds' where ds: "ds = d # ds'" using assms(2) by (cases ds) auto
  have m: "deal_id_match pre = None" using assms(1) by (simp add: deal_id_match_None_iff)
  have d: "is_digit d" using assms(3) ds by simp
  have "takeWhile is_digit (ds' @ rest) = ds'"
    using takeWhile_digits[of ds' rest] assms(3,4) ds by simp
  with deal_id_match_leftmost[OF m d, of "ds' @ rest"] ds show ?thesis
    by (simp add: filename_of_def)
qed

lemma filename_of_slug:
  "\<not> has_deal_id u \<Longrightarrow> url_slug u = Inr slug \<Longrightarrow>
     filename_of u = Inr (''scrape_'' @ take 50 (filter safe_char slug) @ ''.json'')"
  using deal_id_match_None_iff[of u] by (simp add: filename_of_def)

lemma filename_of_spec:
  assumes "\<not> (\<exists>p. u = p @ ''//'')" and "filename_spec u = Some f"
  shows "filename_of u = Inr f"
proof (cases "deal_id_match u")
  case (Some g)
  with assms(2) show ?thesis by (simp add: filename_of_def filename_spec_def)
next
  case None
  with assms(2) obtain slug where s: "last_nonempty_segment u = Some slug"
    and f: "f = ''scrape_'' @ take 50 (filter safe_char slug) @ ''.json''"
    by (auto simp: filename_spec_def split: option.splits)
  from url_slug_spec[OF assms(1) s] None f show ?thesis by (simp add: filename_of_def)
qed

text \<open>
  What the derivation does. If the URL holds \<^verbatim>\<open>/f/\<close> followed by digits, the filename is
  \<^verbatim>\<open>deal_<digits>.json\<close> for the leftmost such place and its longest run of digits.
  Otherwise it is \<^verbatim>\<open>scrape_\<close>, then the piece after the last slash (or, when the URL ends
  in a slash, the piece before that slash) with every character that is not an ASCII
  letter, a digit or \<^verbatim>\<open>-\<close> removed and cut to 50 characters, then \<^verbatim>\<open>.json\<close>. On every URL
  that has a non-empty piece and does not end in two slashes this is the specification's
  filename.
\<close>

lemma filename_derivation:
  "(\<not> has_deal_id pre \<and> ds \<noteq> [] \<and> (\<forall>c\<in>set ds. is_digit c) \<and> (rest = [] \<or> \<not> is_digit (hd rest))
      \<longrightarrow> filename_of (pre @ ''/f/'' @ ds @ rest) = Inr (''deal_'' @ ds @ ''.json''))
   \<and> (has_deal_id u \<longleftrightarrow> deal_id_match u \<noteq> None)
   \<and> (\<not> has_deal_id u \<and> CHR ''/'' \<notin> set slug \<and> slug \<noteq> []
        \<and> (u = slug \<or> (\<exists>p. u = p @ CHR ''/'' # slug))
      \<longrightarrow> filename_of u = Inr (''scrape_'' @ take 50 (filter safe_char slug) @ ''.json''))
   \<and> (\<not> has_deal_id u \<and> CHR ''/'' \<notin> set slug
        \<and> (u = slug @ ''/'' \<or> (\<exists>p. u = p @ CHR ''/'' # slug @ ''/''))
      \<longrightarrow> filename_of u = Inr (''scrape_'' @ take 50 (filter safe_char slug) @ ''.json''))
   \<and> (\<not> (\<exists>p. u = p @ ''//'') \<longrightarrow> (\<forall>f. filename_spec u = Some f \<longrightarrow> filename_of u = Inr f))"
proof (intro conjI)
  show "\<not> has_deal_id pre \<and> ds \<noteq> [] \<and> (\<forall>c\<in>set ds. is_digit c) \<and> (rest = [] \<or> \<not> is_digit (hd rest))
      \<longrightarrow> filename_of (pre @ ''/f/'' @ ds @ rest) = Inr (''deal_'' @ ds @ ''.json'')"
    using filename_of_deal[of pre ds rest] by blast
  show "has_deal_id u \<longleftrightarrow> deal_id_match u \<noteq> None"
    using deal_id_match_None_iff[of u] by auto
  show "\<not> has_deal_id u \<and> CHR ''/'' \<notin> set slug \<and> slug \<noteq> []
        \<and> (u = slug \<or> (\<exists>p. u = p @ CHR ''/'' # slug))
      \<longrightarrow> filename_of u = Inr (''scrape_'' @ take 50 (filter safe_char slug) @ ''.json'')"
    using filename_of_slug[of u slug] url_slug_last[of slug u] by blast
  show "\<not> has_deal_id u \<and> CHR ''/'' \<notin> set slug
        \<and> (u = slug @ ''/'' \<or> (\<exists>p. u = p @ CHR ''/'' # slug @ ''/''))
      \<longrightarrow> filename_of u = Inr (''scrape_'' @ take 50 (filter safe_char slug) @ ''.json'')"
    using filename_of_slug[of u slug] url_slug_trailing[of slug u] by blast
  show "\<not> (\<exists>p. u = p @ ''//'') \<longrightarrow> (\<forall>f. filename_spec u = Some f \<longrightarrow> filename_of u = Inr f)"
    using filename_of_spec[of u] by blast
qed


lemma filename_examples:
  "filename_of ''https://example.com/f/654321-some-deal'' = Inr ''deal_654321.json''
   \<and> has_deal_id ''https://example.com/f/654321-some-deal''
   \<and> filename_of ''https://example.com/forum/some_thread!!'' = Inr ''scrape_somethread.json''
   \<and> filename_of ''https://example.com/forum/some-thread/'' = Inr ''scrape_some-thread.json''
   \<and> filename_spec ''https://example.com/forum/some-thread/'' = Some ''scrape_some-thread.json''"
proof -
  have n1: "\<not> has_deal_id ''https://example.com''"
    by (simp add: deal_id_match_None_iff [symmetric] deal_id_here_def)
  have n2: "\<not> has_deal_id ''https://example.com/forum/some_thread!!''"
    by (simp add: deal_id_match_None_iff [symmetric] deal_id_here_def)
  have n3: "\<not> has_deal_id ''https://example.com/forum/some-thread/''"
    by (simp add: deal_id_match_None_iff [symmetric] deal_id_here_def)
  have p2: "\<exists>p. ''https://example.com/forum/some_thread!!'' = p @ CHR ''/'' # ''some_thread!!''"
    by (rule exI [of _ "''https://example.com/forum''"]) simp
  have p3: "\<exists>p. ''https://example.com/forum/some-thread/'' = p @ CHR ''/'' # ''some-thread'' @ ''/''"
    by (rule exI [of _ "''https://example.com/forum''"]) simp
  have e3: "\<not> (\<exists>p. ''https://example.com/forum/some-thread/'' = p @ ''//'')"
    by (auto simp: append_eq_Cons_conv Cons_eq_append_conv)
  have s3: "filename_spec ''https://example.com/forum/some-thread/'' = Some ''scrape_some-thread.json''"
    by (simp add: filename_spec_def deal_id_here_def last_nonempty_segment_def
        safe_char_def is_alpha_def is_digit_def)
  have m1: "deal_id_match ''https://example.com/f/654321-some-deal'' \<noteq> None"
    by (simp add: deal_id_here_def is_digit_def)
  have c1: "filename_of ''https://example.com/f/654321-some-deal'' = Inr ''deal_654321.json''"
    using filename_derivation [where pre = "''https://example.com''" and ds = "''654321''"
        and rest = "''-some-deal''"] n1
    by (simp add: is_digit_def)
  have c1': "has_deal_id ''https://example.com/f/654321-some-deal''"
    using filename_derivation [where u = "''https://example.com/f/654321-some-deal''"] m1
    by blast
  have c2: "filename_of ''https://example.com/forum/some_thread!!'' = Inr ''scrape_somethread.json''"
    using filename_derivation [where u = "''https://example.com/forum/some_thread!!''"
        and slug = "''some_thread!!''"] n2 p2
    by (simp add: safe_char_def is_alpha_def is_digit_def)
  have c3: "filename_of ''https://example.com/forum/some-thread/'' = Inr ''scrape_some-thread.json''"
    using filename_derivation [where u = "''https://example.com/forum/some-thread/''"
        and slug = "''some-thread''"] n3 p3
    by (simp add: safe_char_def is_alpha_def is_digit_def)
  have c4: "filename_of ''https://example.com/forum/some-thread/'' = Inr ''scrape_some-thread.json''"
    using filename_derivation [where u = "''https://example.com/forum/some-thread/''"] e3 s3
    by blast
  from c1 c1' c2 c3 s3 show ?thesis by blast
qed

text \<open>
  C8: the specification names the file after the last non-empty path segment. The code
  looks back one segment only (\<^verbatim>\<open>split('/')[-1]\<close>, else \<^verbatim>\<open>split('/')[-2]\<close>): it skips
  the empty segment of one trailing slash, but on a URL that ends in two slashes it takes
  the empty segment before the final slash, and on the empty URL the subscript raises.
\<close>

theorem filename_double_slash_evaluation:
  "filename_of ''https://example.com/forum/some-thread//'' = Inr ''scrape_.json''
   \<and> filename_spec ''https://example.com/forum/some-thread//'' = Some ''scrape_some-thread.json''
   \<and> filename_of ''https://example.com/forum/some-thread/'' = Inr ''scrape_some-thread.json''
   \<and> filename_of [] = Inl IndexError"
  by (simp add: filename_of_def filename_spec_def deal_id_here_def url_slug_def
      last_nonempty_segment_def safe_char_def is_alpha_def is_digit_def)

subsection \<open>The loop\<close>

lemma scrape_loop_after:
  "after_pages e b k = Some st \<Longrightarrow>
     scrape_loop e b 1 (k + n) init_state = scrape_loop e b (Suc k) n st"
proof (induction k arbitrary: st n)
  case 0
  then show ?case by simp
next
  case (Suc k)
  from Suc.prems obtain st0 where a: "after_pages e b k = Some st0"
    and s: "scrape_page e b (Suc k) st0 = Continue st"
    by (auto split: option.splits step.splits)
  from Suc.IH [OF a, of "Suc n"] s show ?case by simp
qed

lemma scrape_loop_reaches:
  assumes "after_pages e b (p - 1) = Some st" and "1 \<le> p" and "int p \<le> n"
  shows "scrape_loop e b 1 (nat n) init_state =
           (case scrape_page e b p st of
              Continue st' \<Rightarrow> scrape_loop e b (Suc p) (nat n - p) st'
            | Break st' \<Rightarrow> (None, st')
            | Raise err st' \<Rightarrow> (Some err, st'))"
proof -
  from assms(2,3) have "nat n = (p - 1) + Suc (nat n - p)" by linarith
  then have "scrape_loop e b 1 (nat n) init_state
             = scrape_loop e b (Suc (p - 1)) (Suc (nat n - p)) st"
    using scrape_loop_after [OF assms(1), of "Suc (nat n - p)"] by simp
  with assms(2) show ?thesis by simp
qed

lemma process_data_fetched:
  "process_data e p data st = Continue st' \<or> process_data e p data st = Break st'
     \<or> process_data e p data st = Raise err st' \<Longrightarrow> fetched st' = fetched st"
  by (auto simp: process_data_def Let_def split: json.splits if_splits)

lemma scrape_page_cases:
  "scrape_page e b p st = Break (st\<lparr>fetched := fetched st @ [page_url b p]\<rparr>)
   \<or> (\<exists>err. scrape_page e b p st = Raise err (st\<lparr>fetched := fetched st @ [page_url b p]\<rparr>))
   \<or> (\<exists>data. scrape_page e b p st
               = process_data e p data (st\<lparr>fetched := fetched st @ [page_url b p]\<rparr>))"
  by (auto simp: scrape_page_def Let_def split: option.splits nuxt.splits)

lemma scrape_page_fetched:
  assumes "scrape_page e b p st = Continue st' \<or> scrape_page e b p st = Break st'
     \<or> scrape_page e b p st = Raise err st'"
  shows "fetched st' = fetched st @ [page_url b p]"
proof -
  let ?st0 = "st\<lparr>fetched := fetched st @ [page_url b p]\<rparr>"
  from scrape_page_cases [of e b p st] consider
    "scrape_page e b p st = Break ?st0"
    | err' where "scrape_page e b p st = Raise err' ?st0"
    | data where "scrape_page e b p st = process_data e p data ?st0"
    by blast
  then show ?thesis
  proof cases
    case 1
    with assms show ?thesis by auto
  next
    case 2
    with assms show ?thesis by auto
  next
    case 3
    with assms process_data_fetched [of e p data ?st0 st' err] show ?thesis by simp
  qed
qed

lemma after_pages_fetched:
  "after_pages e b k = Some st \<Longrightarrow> fetched st = map (page_url b) [1..<Suc k]"
proof (induction k arbitrary: st)
  case 0
  then show ?case by (auto simp: init_state_def)
next
  case (Suc k)
  from Suc.prems obtain st0 where a: "after_pages e b k = Some st0"
    and s: "scrape_page e b (Suc k) st0 = Continue st"
    by (auto split: option.splits step.splits)
  from Suc.IH [OF a] scrape_page_fetched [of e b "Suc k" st0 st] s show ?case by simp
qed

lemma fresh_scrape_break:
  assumes "after_pages e b (p - 1) = Some st" and "1 \<le> p" and "int p \<le> n"
    and "scrape_page e b p st = Break st'"
  shows "fresh_scrape e fs b fname n
           = write_and_return e fs fname (result_json st' fname n) (fetched st')"
  using scrape_loop_reaches [OF assms(1,2,3)] assms(4)
  by (simp add: fresh_scrape_def)

lemma scrape_comments_fresh:
  "filename_of (strip_query (url req)) = Inr fname \<Longrightarrow> cached_reply e fs req fname = None \<Longrightarrow>
     scrape_comments e fs req = fresh_scrape e fs (strip_query (url req)) fname (max_pages req)"
  by (simp add: scrape_comments_def)

lemma scrape_page_fetch_failed:
  "requests_get e (page_url b p) = None \<Longrightarrow>
     scrape_page e b p st = Break (st\<lparr>fetched := fetched st @ [page_url b p]\<rparr>)"
  by (simp add: scrape_page_def)

lemma scrape_page_redirected:
  "requests_get e (page_url b p) = Some r \<Longrightarrow> 1 < p \<Longrightarrow> redirected e r p \<Longrightarrow>
     scrape_page e b p st = Break (st\<lparr>fetched := fetched st @ [page_url b p]\<rparr>)"
  by (simp add: scrape_page_def)

lemma scrape_page_no_payload:
  "requests_get e (page_url b 1) = Some r \<Longrightarrow> nuxt_data r = NoMatch \<or> nuxt_data r = BadJson \<Longrightarrow>
     scrape_page e b 1 st = Break (st\<lparr>fetched := fetched st @ [page_url b 1]\<rparr>)"
  by (auto simp: scrape_page_def)

lemma redirectedI:
  "final_page_list r = None \<or> (\<exists>v vs. final_page_list r = Some (v # vs) \<and> py_int e v \<noteq> Some (int p)) \<Longrightarrow>
     redirected e r p"
  by (auto simp: redirected_def split: option.splits)

lemma result_comments_result_json:
  "result_comments (result_json st fname n) = map comment_json (all_comments st)"
  by (simp add: result_comments_def result_json_def json_field_def)

lemma result_json_fetched: "result_json (st\<lparr>fetched := l\<rparr>) fname n = result_json st fname n"
  by (simp add: result_json_def)

text \<open>The shape every theorem on a stopped loop ends in: the record is built from the
  state at the break, and only the write of the cache file can still raise.\<close>

lemma scrape_stops_at:
  assumes "filename_of (strip_query (url req)) = Inr fname"
    and "cached_reply e fs req fname = None"
    and "after_pages e (strip_query (url req)) (p - 1) = Some st"
    and "1 \<le> p" and "int p \<le> max_pages req"
    and "scrape_page e (strip_query (url req)) p st = Break st'"
    and "all_comments st' = all_comments st"
  shows "\<exists>res. scrape_comments e fs req
                 = (case file_write e fname res of
                      Written \<Rightarrow> (Inr res, fs(fname \<mapsto> Json res),
                                  map (page_url (strip_query (url req))) [1..<Suc p])
                    | OpenRaises err \<Rightarrow> (Inl err, fs,
                                  map (page_url (strip_query (url req))) [1..<Suc p])
                    | DumpRaises err \<Rightarrow> (Inl err, fs(fname \<mapsto> Corrupt),
                                  map (page_url (strip_query (url req))) [1..<Suc p]))
           \<and> result_comments res = map comment_json (all_comments st)
           \<and> res = result_json st' fname (max_pages req)"
proof -
  let ?b = "strip_query (url req)"
  have "fetched st' = fetched st @ [page_url ?b p]"
    using scrape_page_fetched [of e ?b p st st'] assms(6) by simp
  then have f: "fetched st' = map (page_url ?b) [1..<Suc p]"
    using after_pages_fetched [OF assms(3)] assms(4) by (cases p) simp_all
  have "scrape_comments e fs req
          = write_and_return e fs fname (result_json st' fname (max_pages req)) (fetched st')"
    using scrape_comments_fresh [OF assms(1,2)] fresh_scrape_break [OF assms(3,4,5,6)]
    by simp
  with f assms(7) show ?thesis
    by (auto simp: write_and_return_def result_comments_result_json simp del: upt_Suc
        split: write_outcome.splits)
qed

text \<open>
  C4: when the loop enters a page \<open>p > 1\<close> and the final URL of its response has no
  \<^verbatim>\<open>page\<close> parameter, or one whose integer value is not \<open>p\<close> (or is not an integer), the
  loop ends without error: the requests made are those for pages \<open>1..p\<close> and no later
  one, and the record built, written and returned holds exactly the comments accumulated
  on pages \<open>1..p-1\<close>. (Past the loop only the write of the cache file can raise.)
\<close>

theorem redirect_stops_pagination:
  assumes "filename_of (strip_query (url req)) = Inr fname"
    and "cached_reply e fs req fname = None"
    and "after_pages e (strip_query (url req)) (p - 1) = Some st"
    and "1 < p" and "int p \<le> max_pages req"
    and "requests_get e (page_url (strip_query (url req)) p) = Some r"
    and "final_page_list r = None
         \<or> (\<exists>v vs. final_page_list r = Some (v # vs) \<and> py_int e v \<noteq> Some (int p))"
  shows "\<exists>res. scrape_comments e fs req
                 = (case file_write e fname res of
                      Written \<Rightarrow> (Inr res, fs(fname \<mapsto> Json res),
                                  map (page_url (strip_query (url req))) [1..<Suc p])
                    | OpenRaises err \<Rightarrow> (Inl err, fs,
                                  map (page_url (strip_query (url req))) [1..<Suc p])
                    | DumpRaises err \<Rightarrow> (Inl err, fs(fname \<mapsto> Corrupt),
                                  map (page_url (strip_query (url req))) [1..<Suc p]))
           \<and> result_comments res = map comment_json (all_comments st)"
proof -
  let ?b = "strip_query (url req)"
  let ?st' = "st\<lparr>fetched := fetched st @ [page_url ?b p]\<rparr>"
  have brk: "scrape_page e ?b p st = Break ?st'"
    using scrape_page_redirected [OF assms(6) assms(4) redirectedI [OF assms(7)]] .
  have p1: "1 \<le> p" using assms(4) by simp
  have ac: "all_comments ?st' = all_comments st" by simp
  from scrape_stops_at [OF assms(1,2,3) p1 assms(5) brk ac] show ?thesis by blast
qed

lemma page_url_1: "page_url b (Suc 0) = b @ ''?sort=oldest&page=1''"
  by (simp add: page_url_def string_of_nat.simps)

lemma page_url_2: "page_url b 2 = b @ ''?sort=oldest&page=2''"
  by (simp add: page_url_def string_of_nat.simps)

lemma page_url_2': "page_url b (Suc (Suc 0)) = b @ ''?sort=oldest&page=2''"
  using page_url_2 [of b] by (simp add: numeral_2_eq_2)

lemma page_url_3: "page_url b (Suc (Suc (Suc 0))) = b @ ''?sort=oldest&page=3''"
  by (simp add: page_url_def string_of_nat.simps)

lemma sample_base: "strip_query (url (sample_request n force)) = ''http://x/f/1''"
  by (simp add: sample_request_def strip_query_def)

lemma sample_filename: "filename_of ''http://x/f/1'' = Inr ''deal_1.json''"
  by (simp add: filename_of_def deal_id_here_def is_digit_def)

lemma sample_file: "filename_of (strip_query (url (sample_request n force))) = Inr ''deal_1.json''"
  by (simp add: sample_base sample_filename)

lemma sample_cached_empty: "cached_reply e Map.empty req fname = None"
  by (simp add: cached_reply_def)

lemma sample_extract:
  "extract_comments (sample_env x) [JDict [(''commentText'', JInt 1), (''author'', JInt 2)],
                                 JStr ''hi'', JStr ''bob''] {} =
    \<lparr>seen = {7}, new_comments_on_this_page = 1, page_comments = [\<lparr>comment_type = ''Featured'', comment_author = JStr ''bob'',
                       comment_text = JStr ''hi'', comment_date = JStr []\<rparr>]\<rparr>"
  by (simp add: extract_comments_def extract_item_def has_key_def featured_comment_def py_get_def
      resolve_ref_def isinstance_int_def or_empty_def resolve_text_def add_comment_def comment_hash_def fmt_def sample_env_def)

lemma sample_after_1: "after_pages (sample_env x) ''http://x/f/1'' (Suc 0) = Some sample_state"
  by (simp add: scrape_page_def page_url_1 sample_env_def [of x, THEN arg_cong [of _ _ requests_get]]
       sample_page_def process_data_def sample_extract init_state_def
      extract_metadata_def is_minus_one_def has_key_def sample_state_def Let_def)

lemma sample_written: "file_write (sample_env x) f v = Written"
  by (simp add: sample_env_def)

theorem redirect_stops_pagination_witness:
  "\<exists>res. scrape_comments (sample_env (Some \<lparr>final_page_list = Some [''1''], nuxt_data = NoMatch\<rparr>))
            Map.empty (sample_request 5 False)
          = (Inr res, [''deal_1.json'' \<mapsto> Json res],
                 [''http://x/f/1?sort=oldest&page=1'', ''http://x/f/1?sort=oldest&page=2''])
        \<and> result_comments res =
            [JDict [(''type'', JStr ''Featured''), (''author'', JStr ''bob''),
                    (''text'', JStr ''hi''), (''date'', JStr [])]]"
proof -
  let ?r = "\<lparr>final_page_list = Some [''1''], nuxt_data = NoMatch\<rparr>"
  let ?e = "sample_env (Some ?r)"
  have 3: "after_pages ?e (strip_query (url (sample_request 5 False))) (2 - 1) = Some sample_state"
    using sample_after_1 [of "Some ?r"] by (simp add: sample_base del: after_pages.simps)
  have 4: "(1::nat) < 2" by simp
  have 5: "int 2 \<le> max_pages (sample_request 5 False)" by (simp add: sample_request_def)
  have 6: "requests_get ?e (page_url (strip_query (url (sample_request 5 False))) 2) = Some ?r"
    by (simp add: sample_base page_url_2 sample_env_def)
  have 7: "final_page_list ?r = None
         \<or> (\<exists>v vs. final_page_list ?r = Some (v # vs) \<and> py_int ?e v \<noteq> Some (int 2))"
    by (simp add: sample_env_def)
  from redirect_stops_pagination [OF sample_file sample_cached_empty 3 4 5 6 7]
  show ?thesis
    by (simp add: sample_written sample_base page_url_1 page_url_2 page_url_2' sample_state_def
        comment_json_def upt_rec)
qed

subsection \<open>Fetch failures\<close>

text \<open>
  C5 (amended): a fetch failure on any page, page 1 included, is swallowed: the loop ends
  without error, no further page is requested, and the record built, written and
  returned holds the comments accumulated on the pages before (none when page 1 fails).
  (Past the loop only the write of the cache file can raise.)
\<close>

theorem fetch_failure_stops_pagination:
  assumes "filename_of (strip_query (url req)) = Inr fname"
    and "cached_reply e fs req fname = None"
    and "after_pages e (strip_query (url req)) (p - 1) = Some st"
    and "1 \<le> p" and "int p \<le> max_pages req"
    and "requests_get e (page_url (strip_query (url req)) p) = None"
  shows "\<exists>res. scrape_comments e fs req
                 = (case file_write e fname res of
                      Written \<Rightarrow> (Inr res, fs(fname \<mapsto> Json res),
                                  map (page_url (strip_query (url req))) [1..<Suc p])
                    | OpenRaises err \<Rightarrow> (Inl err, fs,
                                  map (page_url (strip_query (url req))) [1..<Suc p])
                    | DumpRaises err \<Rightarrow> (Inl err, fs(fname \<mapsto> Corrupt),
                                  map (page_url (strip_query (url req))) [1..<Suc p]))
           \<and> result_comments res = map comment_json (all_comments st)"
proof -
  let ?b = "strip_query (url req)"
  let ?st' = "st\<lparr>fetched := fetched st @ [page_url ?b p]\<rparr>"
  have brk: "scrape_page e ?b p st = Break ?st'"
    using scrape_page_fetch_failed [OF assms(6)] .
  have ac: "all_comments ?st' = all_comments st" by simp
  from scrape_stops_at [OF assms(1,2,3,4,5) brk ac] show ?thesis by blast
qed

theorem fetch_failure_stops_pagination_witness:
  "\<exists>res. scrape_comments (sample_env None) Map.empty (sample_request 5 False)
          = (Inr res, [''deal_1.json'' \<mapsto> Json res],
                 [''http://x/f/1?sort=oldest&page=1'', ''http://x/f/1?sort=oldest&page=2''])
        \<and> result_comments res =
            [JDict [(''type'', JStr ''Featured''), (''author'', JStr ''bob''),
                    (''text'', JStr ''hi''), (''date'', JStr [])]]"
proof -
  let ?e = "sample_env None"
  have 3: "after_pages ?e (strip_query (url (sample_request 5 False))) (2 - 1) = Some sample_state"
    using sample_after_1 [of None] by (simp add: sample_base del: after_pages.simps)
  have 4: "(1::nat) \<le> 2" by simp
  have 5: "int 2 \<le> max_pages (sample_request 5 False)" by (simp add: sample_request_def)
  have 6: "requests_get ?e (page_url (strip_query (url (sample_request 5 False))) 2) = None"
    by (simp add: sample_base page_url_2 sample_env_def)
  from fetch_failure_stops_pagination [OF sample_file sample_cached_empty 3 4 5 6]
  show ?thesis
    by (simp add: sample_written sample_base page_url_1 page_url_2 page_url_2' sample_state_def
        comment_json_def upt_rec)
qed

lemma dead_loop:
  "scrape_loop dead_env b 1 (Suc n) init_state = (None, init_state\<lparr>fetched := [page_url b 1]\<rparr>)"
  by (simp add: scrape_page_def dead_env_def init_state_def Let_def)

lemma sample_fresh:
  "scrape_comments e Map.empty (sample_request n force)
     = fresh_scrape e Map.empty ''http://x/f/1'' ''deal_1.json'' n"
  using scrape_comments_fresh [OF sample_file [of n force] sample_cached_empty, where e = e]
  by (simp add: sample_base) (simp add: sample_request_def)

lemma dead_fresh:
  "0 < n \<Longrightarrow> fresh_scrape dead_env fs ''http://x/f/1'' fname n
     = (Inr (empty_record fname n), fs(fname \<mapsto> Json (empty_record fname n)),
            [''http://x/f/1?sort=oldest&page=1''])"
proof -
  assume "0 < n"
  then obtain k where "nat n = Suc k" by (cases "nat n") auto
  then show ?thesis
    using dead_loop [of "''http://x/f/1''" k] page_url_1 [of "''http://x/f/1''"]
    by (simp add: fresh_scrape_def write_and_return_def result_json_def init_state_def
        empty_record_def dead_env_def)
qed

text \<open>
  C5 (as stated, refuted): when the request for page 1 fails the handler raises nothing;
  it returns, and writes to the cache, a record without comments.
\<close>

theorem first_page_failure_counterexample:
  "scrape_comments dead_env Map.empty (sample_request 3 False)
     = (Inr (empty_record ''deal_1.json'' 3),
        [''deal_1.json'' \<mapsto> Json (empty_record ''deal_1.json'' 3)],
        [''http://x/f/1?sort=oldest&page=1''])"
  by (simp add: sample_fresh dead_fresh)

subsection \<open>Scrapes that find no comment\<close>

lemma result_json_empty:
  "all_comments st = [] \<Longrightarrow>
     result_json st fname n =
       JDict [(''deal_title'', JStr (deal_title st)),
              (''deal_description'', JStr (deal_description st)),
              (''count'', JInt 0), (''comments'', JList []), (''saved_to'', JStr fname),
              (''source'', JStr ''scrape''), (''max_pages_request'', JInt n)]"
  by (simp add: result_json_def)

lemma result_json_init:
  "result_json (init_state\<lparr>fetched := l\<rparr>) fname n = empty_record fname n"
  by (simp add: result_json_def init_state_def empty_record_def)

lemma fresh_scrape_no_pages:
  "n < 1 \<Longrightarrow> fresh_scrape e fs b fname n
     = write_and_return e fs fname (empty_record fname n) []"
  using result_json_init [of "[]" fname n]
  by (simp add: fresh_scrape_def init_state_def)

lemma fresh_scrape_first_page_lost:
  assumes "1 \<le> n"
    and "requests_get e (page_url b 1) = None
         \<or> (\<exists>r. requests_get e (page_url b 1) = Some r
                \<and> (nuxt_data r = NoMatch \<or> nuxt_data r = BadJson))"
  shows "fresh_scrape e fs b fname n
     = write_and_return e fs fname (empty_record fname n) [page_url b 1]"
proof -
  have brk: "scrape_page e b 1 init_state
               = Break (init_state\<lparr>fetched := fetched init_state @ [page_url b 1]\<rparr>)"
    using assms(2) scrape_page_fetch_failed [of e b 1 init_state]
      scrape_page_no_payload [of e b _ init_state] by blast
  have a: "after_pages e b (1 - 1) = Some init_state" by simp
  have n: "int 1 \<le> n" using assms(1) by simp
  from fresh_scrape_break [OF a _ n brk, of fs fname] show ?thesis
    by (simp add: result_json_init) (simp add: init_state_def)
qed

text \<open>
  C9 (amended): whenever the loop ends with no comment accumulated, the handler still
  builds a record with count 0 and an empty comment list, the requested \<^verbatim>\<open>max_pages\<close>
  as \<^verbatim>\<open>max_pages_request\<close> and source \<^verbatim>\<open>scrape\<close>; unless the write of the cache file
  raises, it overwrites the thread's cache file with the record and returns it. Title
  and description are empty when page 1 gave no payload (its fetch failed, the marker
  was absent, \<^verbatim>\<open>json.loads\<close> raised \<^verbatim>\<open>json.JSONDecodeError\<close>) or no page was requested;
  otherwise they are what page 1's metadata block found.
\<close>

theorem empty_scrape_record:
  assumes "filename_of (strip_query (url req)) = Inr fname"
    and "cached_reply e fs req fname = None"
  shows "(\<forall>st. scrape_loop e (strip_query (url req)) 1 (nat (max_pages req)) init_state = (None, st)
              \<and> all_comments st = [] \<longrightarrow>
            (\<exists>res. res = JDict [(''deal_title'', JStr (deal_title st)),
                              (''deal_description'', JStr (deal_description st)),
                              (''count'', JInt 0), (''comments'', JList []),
                              (''saved_to'', JStr fname), (''source'', JStr ''scrape''),
                              (''max_pages_request'', JInt (max_pages req))]
               \<and> scrape_comments e fs req
                   = (case file_write e fname res of
                        Written \<Rightarrow> (Inr res, fs(fname \<mapsto> Json res), fetched st)
                      | OpenRaises err \<Rightarrow> (Inl err, fs, fetched st)
                      | DumpRaises err \<Rightarrow> (Inl err, fs(fname \<mapsto> Corrupt), fetched st))))
       \<and> (max_pages req < 1
            \<or> requests_get e (page_url (strip_query (url req)) 1) = None
            \<or> (\<exists>r. requests_get e (page_url (strip_query (url req)) 1) = Some r
                   \<and> (nuxt_data r = NoMatch \<or> nuxt_data r = BadJson)) \<longrightarrow>
            scrape_comments e fs req
              = (case file_write e fname (empty_record fname (max_pages req)) of
                   Written \<Rightarrow>
                     (Inr (empty_record fname (max_pages req)),
                      fs(fname \<mapsto> Json (empty_record fname (max_pages req))),
                      if max_pages req < 1 then [] else [page_url (strip_query (url req)) 1])
                 | OpenRaises err \<Rightarrow>
                     (Inl err, fs,
                      if max_pages req < 1 then [] else [page_url (strip_query (url req)) 1])
                 | DumpRaises err \<Rightarrow>
                     (Inl err, fs(fname \<mapsto> Corrupt),
                      if max_pages req < 1 then [] else [page_url (strip_query (url req)) 1])))"
proof (intro conjI allI impI)
  fix st
  assume "scrape_loop e (strip_query (url req)) 1 (nat (max_pages req)) init_state = (None, st)
            \<and> all_comments st = []"
  then show "\<exists>res. res = JDict [(''deal_title'', JStr (deal_title st)),
                              (''deal_description'', JStr (deal_description st)),
                              (''count'', JInt 0), (''comments'', JList []),
                              (''saved_to'', JStr fname), (''source'', JStr ''scrape''),
                              (''max_pages_request'', JInt (max_pages req))]
               \<and> scrape_comments e fs req
                   = (case file_write e fname res of
                        Written \<Rightarrow> (Inr res, fs(fname \<mapsto> Json res), fetched st)
                      | OpenRaises err \<Rightarrow> (Inl err, fs, fetched st)
                      | DumpRaises err \<Rightarrow> (Inl err, fs(fname \<mapsto> Corrupt), fetched st))"
    using scrape_comments_fresh [OF assms] result_json_empty [of st fname "max_pages req"]
    by (auto simp: fresh_scrape_def write_and_return_def split: write_outcome.splits)
next
  assume h: "max_pages req < 1
            \<or> requests_get e (page_url (strip_query (url req)) 1) = None
            \<or> (\<exists>r. requests_get e (page_url (strip_query (url req)) 1) = Some r
                   \<and> (nuxt_data r = NoMatch \<or> nuxt_data r = BadJson))"
  have "scrape_comments e fs req
          = write_and_return e fs fname (empty_record fname (max_pages req))
              (if max_pages req < 1 then [] else [page_url (strip_query (url req)) 1])"
  proof (cases "max_pages req < 1")
    case True
    then show ?thesis
      using scrape_comments_fresh [OF assms] fresh_scrape_no_pages by simp
  next
    case False
    then have "1 \<le> max_pages req" by simp
    from fresh_scrape_first_page_lost [OF this, of e "strip_query (url req)" fs fname] h False
    show ?thesis using scrape_comments_fresh [OF assms] by simp
  qed
  then show "scrape_comments e fs req
              = (case file_write e fname (empty_record fname (max_pages req)) of
                   Written \<Rightarrow>
                     (Inr (empty_record fname (max_pages req)),
                      fs(fname \<mapsto> Json (empty_record fname (max_pages req))),
                      if max_pages req < 1 then [] else [page_url (strip_query (url req)) 1])
                 | OpenRaises err \<Rightarrow>
                     (Inl err, fs,
                      if max_pages req < 1 then [] else [page_url (strip_query (url req)) 1])
                 | DumpRaises err \<Rightarrow>
                     (Inl err, fs(fname \<mapsto> Corrupt),
                      if max_pages req < 1 then [] else [page_url (strip_query (url req)) 1]))"
    by (simp add: write_and_return_def)
qed

text \<open>What the amended claim leaves out: an exception of \<^verbatim>\<open>json.loads\<close> that is not a
  \<^verbatim>\<open>json.JSONDecodeError\<close> leaves the handler, and nothing is written.\<close>

lemma loads_exception_propagates:
  assumes "filename_of (strip_query (url req)) = Inr fname"
    and "cached_reply e fs req fname = None" and "1 \<le> max_pages req"
    and "requests_get e (page_url (strip_query (url req)) 1) = Some r"
    and "nuxt_data r = LoadsRaises err"
  shows "scrape_comments e fs req = (Inl err, fs, [page_url (strip_query (url req)) 1])"
proof -
  from assms(3) obtain k where "nat (max_pages req) = Suc k" by (cases "nat (max_pages req)") auto
  then show ?thesis
    using scrape_comments_fresh [OF assms(1,2)] assms(4,5)
    by (simp add: fresh_scrape_def scrape_page_def init_state_def)
qed

lemma titled_loop:
  "scrape_loop titled_env ''http://x/f/1'' 1 (Suc n) init_state
     = (None, \<lparr>seen_comments_hashes = {}, deal_title = ''Great deal'', deal_description = [],
            all_comments = [], fetched = [''http://x/f/1?sort=oldest&page=1'']\<rparr>)"
  by (simp add: scrape_page_def page_url_1 titled_env_def process_data_def init_state_def
      extract_metadata_def is_minus_one_def has_key_def py_get_def resolve_ref_def
      isinstance_int_def extract_comments_def extract_item_def Let_def)

theorem empty_scrape_record_witness:
  "scrape_comments dead_env stale_store (sample_request 4 True)
     = (Inr (empty_record ''deal_1.json'' 4),
            stale_store(''deal_1.json'' \<mapsto> Json (empty_record ''deal_1.json'' 4)),
            [''http://x/f/1?sort=oldest&page=1''])
   \<and> (\<exists>res. scrape_comments titled_env stale_store (sample_request 6 False)
               = (Inr res, stale_store(''deal_1.json'' \<mapsto> Json res),
                      [''http://x/f/1?sort=oldest&page=1''])
          \<and> res = JDict [(''deal_title'', JStr ''Great deal''), (''deal_description'', JStr []),
                         (''count'', JInt 0), (''comments'', JList []),
                         (''saved_to'', JStr ''deal_1.json''), (''source'', JStr ''scrape''),
                         (''max_pages_request'', JInt 6)])"
proof -
  have c1: "cached_reply dead_env stale_store (sample_request 4 True) ''deal_1.json'' = None"
    by (simp add: cached_reply_def sample_request_def)
  have c2: "cached_reply titled_env stale_store (sample_request 6 False) ''deal_1.json'' = None"
    by (simp add: cached_reply_def sample_request_def stale_store_def cache_check_def
        py_gt_def py_get_default_def)
  have d: "requests_get dead_env (page_url (strip_query (url (sample_request 4 True))) 1) = None"
    by (simp add: dead_env_def)
  have w: "file_write dead_env f v = Written" "file_write titled_env f v = Written" for f v
    by (simp_all add: dead_env_def titled_env_def)
  have m: "max_pages (sample_request 4 True) = 4" "max_pages (sample_request 6 False) = 6"
    by (simp_all add: sample_request_def)
  have "nat 6 = Suc 5" by simp
  then have l: "scrape_loop titled_env (strip_query (url (sample_request 6 False))) 1
               (nat (max_pages (sample_request 6 False))) init_state
           = (None, \<lparr>seen_comments_hashes = {}, deal_title = ''Great deal'', deal_description = [],
            all_comments = [], fetched = [''http://x/f/1?sort=oldest&page=1'']\<rparr>)"
    using titled_loop [of 5] by (simp add: sample_base m del: scrape_loop.simps)
  from empty_scrape_record [OF sample_file c1] d
  have 1: "scrape_comments dead_env stale_store (sample_request 4 True)
     = (Inr (empty_record ''deal_1.json'' 4),
            stale_store(''deal_1.json'' \<mapsto> Json (empty_record ''deal_1.json'' 4)),
            [''http://x/f/1?sort=oldest&page=1''])"
    using page_url_1 [of "''http://x/f/1''"] by (simp add: m sample_base w)
  from empty_scrape_record [OF sample_file c2] l
  have 2: "\<exists>res. scrape_comments titled_env stale_store (sample_request 6 False)
               = (Inr res, stale_store(''deal_1.json'' \<mapsto> Json res),
                      [''http://x/f/1?sort=oldest&page=1''])
          \<and> res = JDict [(''deal_title'', JStr ''Great deal''), (''deal_description'', JStr []),
                         (''count'', JInt 0), (''comments'', JList []),
                         (''saved_to'', JStr ''deal_1.json''), (''source'', JStr ''scrape''),
                         (''max_pages_request'', JInt 6)]"
    by (simp add: m w)
  from 1 2 show ?thesis by blast
qed

text \<open>
  C9 (as stated, refuted): a first page that names a title and holds no comment stops
  the loop before any comment is extracted, and the record's title is not empty.
\<close>

theorem titled_empty_scrape_counterexample:
  "scrape_comments titled_env Map.empty (sample_request 3 False)
     = (Inr (JDict [(''deal_title'', JStr ''Great deal''), (''deal_description'', JStr []),
                   (''count'', JInt 0), (''comments'', JList []),
                   (''saved_to'', JStr ''deal_1.json''), (''source'', JStr ''scrape''),
                   (''max_pages_request'', JInt 3)]),
            [''deal_1.json'' \<mapsto>
               Json (JDict [(''deal_title'', JStr ''Great deal''), (''deal_description'', JStr []),
                   (''count'', JInt 0), (''comments'', JList []),
                   (''saved_to'', JStr ''deal_1.json''), (''source'', JStr ''scrape''),
                   (''max_pages_request'', JInt 3)])],
            [''http://x/f/1?sort=oldest&page=1''])"
proof -
  have "nat 3 = Suc 2" by simp
  then show ?thesis using titled_loop [of 2]
    by (simp add: sample_fresh fresh_scrape_def write_and_return_def result_json_def
        titled_env_def [THEN arg_cong [of _ _ file_write]] del: scrape_loop.simps)
qed

subsection \<open>Deduplication\<close>

lemma extract_item_candidates:
  "extract_item e data item ex = foldl (\<lambda>ex c. add_comment e c ex) ex (item_candidates data item)"
  by (cases item) (simp_all add: extract_item_def item_candidates_def Let_def)

lemma extract_items_candidates:
  "foldl (\<lambda>ex item. extract_item e data item ex) ex items
     = foldl (\<lambda>ex c. add_comment e c ex) ex (concat (map (item_candidates data) items))"
  by (induction items arbitrary: ex) (simp_all add: extract_item_candidates)

lemma extract_comments_candidates:
  "extract_comments e data S
     = foldl (\<lambda>ex c. add_comment e c ex)
         \<lparr>seen = S, new_comments_on_this_page = 0, page_comments = []\<rparr> (candidates data)"
  by (simp add: extract_comments_def candidates_def extract_items_candidates)

lemma dedup_seen:
  "seen (foldl (\<lambda>ex c. add_comment e c ex) ex cs) = seen ex \<union> comment_hash e ` set cs"
  by (induction cs arbitrary: ex) (auto simp: add_comment_def)

lemma dedup_all_seen:
  "comment_hash e ` set cs \<subseteq> seen ex \<Longrightarrow> foldl (\<lambda>ex c. add_comment e c ex) ex cs = ex"
  by (induction cs arbitrary: ex) (auto simp: add_comment_def)

lemma dedup_added:
  "\<exists>added. page_comments (foldl (\<lambda>ex c. add_comment e c ex) ex cs) = page_comments ex @ added
      \<and> new_comments_on_this_page (foldl (\<lambda>ex c. add_comment e c ex) ex cs)
          = new_comments_on_this_page ex + length added
      \<and> distinct (map (comment_hash e) added)
      \<and> comment_hash e ` set added \<inter> seen ex = {}
      \<and> seen (foldl (\<lambda>ex c. add_comment e c ex) ex cs) = seen ex \<union> comment_hash e ` set added"
proof (induction cs arbitrary: ex)
  case Nil
  show ?case by (rule exI [of _ "[]"]) simp
next
  case (Cons c cs)
  show ?case
  proof (cases "comment_hash e c \<in> seen ex")
    case True
    then have "add_comment e c ex = ex" by (simp add: add_comment_def)
    with Cons.IH [of ex] show ?thesis by simp
  next
    case False
    let ?ex1 = "add_comment e c ex"
    from False have s: "seen ?ex1 = insert (comment_hash e c) (seen ex)"
      and n: "new_comments_on_this_page ?ex1 = new_comments_on_this_page ex + 1"
      and pc: "page_comments ?ex1 = page_comments ex @ [c]"
      by (simp_all add: add_comment_def)
    from Cons.IH [of ?ex1] obtain added where
      a: "page_comments (foldl (\<lambda>ex c. add_comment e c ex) ?ex1 cs) = page_comments ?ex1 @ added"
        "new_comments_on_this_page (foldl (\<lambda>ex c. add_comment e c ex) ?ex1 cs)
          = new_comments_on_this_page ?ex1 + length added"
        "distinct (map (comment_hash e) added)"
        "comment_hash e ` set added \<inter> seen ?ex1 = {}"
        "seen (foldl (\<lambda>ex c. add_comment e c ex) ?ex1 cs) = seen ?ex1 \<union> comment_hash e ` set added"
      by blast
    show ?thesis
    proof (rule exI [of _ "c # added"], intro conjI)
      show "page_comments (foldl (\<lambda>ex c. add_comment e c ex) ex (c # cs)) = page_comments ex @ c # added"
        using a(1) pc by simp
      show "new_comments_on_this_page (foldl (\<lambda>ex c. add_comment e c ex) ex (c # cs))
          = new_comments_on_this_page ex + length (c # added)"
        using a(2) n by simp
      show "distinct (map (comment_hash e) (c # added))"
        using a(3,4) s by auto
      show "comment_hash e ` set (c # added) \<inter> seen ex = {}"
        using a(4) s False by auto
      show "seen (foldl (\<lambda>ex c. add_comment e c ex) ex (c # cs)) = seen ex \<union> comment_hash e ` set (c # added)"
        using a(5) s by auto
    qed
  qed
qed

lemma extract_comments_added:
  "\<exists>added. page_comments (extract_comments e items S) = added
      \<and> new_comments_on_this_page (extract_comments e items S) = length added
      \<and> distinct (map (comment_hash e) added)
      \<and> comment_hash e ` set added \<inter> S = {}
      \<and> seen (extract_comments e items S) = S \<union> comment_hash e ` set added"
  using dedup_added [of e "\<lparr>seen = S, new_comments_on_this_page = 0, page_comments = []\<rparr>"
      "candidates items"]
  by (simp add: extract_comments_candidates)

lemma extract_comments_seen:
  "seen (extract_comments e items S) = S \<union> comment_hash e ` set (candidates items)"
  by (simp add: extract_comments_candidates dedup_seen)

lemma extract_comments_repeat:
  "comment_hash e ` set (candidates items) \<subseteq> S \<Longrightarrow>
     new_comments_on_this_page (extract_comments e items S) = 0"
  by (simp add: extract_comments_candidates dedup_all_seen)

lemma dedup_inv_continue:
  assumes "dedup_inv e st" and "distinct (map (comment_hash e) added)"
    and "comment_hash e ` set added \<inter> seen_comments_hashes st = {}"
    and "S = seen_comments_hashes st \<union> comment_hash e ` set added"
  shows "dedup_inv e (st\<lparr>deal_title := t, deal_description := d, seen_comments_hashes := S,
                        all_comments := all_comments st @ added\<rparr>)"
  using assms by (auto simp: dedup_inv_def)

lemma dedup_inv_break:
  assumes "dedup_inv e st" and "S = seen_comments_hashes st"
  shows "dedup_inv e (st\<lparr>deal_title := t, deal_description := d, seen_comments_hashes := S\<rparr>)"
  using assms by (simp add: dedup_inv_def)

lemma dedup_page_comments_subset:
  "set (page_comments (foldl (\<lambda>ex c. add_comment e c ex) ex cs))
     \<subseteq> set (page_comments ex) \<union> set cs"
proof (induction cs arbitrary: ex)
  case Nil
  show ?case by simp
next
  case (Cons c cs)
  have "set (page_comments (add_comment e c ex)) \<subseteq> set (page_comments ex) \<union> {c}"
    by (auto simp: add_comment_def)
  with Cons.IH [of "add_comment e c ex"] show ?case by auto
qed

lemma extract_comments_subset:
  "set (page_comments (extract_comments e items S)) \<subseteq> set (candidates items)"
  using dedup_page_comments_subset
    [of e "\<lparr>seen = S, new_comments_on_this_page = 0, page_comments = []\<rparr>" "candidates items"]
  by (simp add: extract_comments_candidates)


lemma process_data_inv:
  assumes "dedup_inv e st"
    and "process_data e p data st = Continue st' \<or> process_data e p data st = Break st'
         \<or> process_data e p data st = Raise err st'"
  shows "dedup_inv e st'"
proof (cases data)
  case (JList items)
  let ?ex = "extract_comments e items (seen_comments_hashes st)"
  from extract_comments_added [of e items "seen_comments_hashes st"] obtain added where
    a: "page_comments ?ex = added" "new_comments_on_this_page ?ex = length added"
      "distinct (map (comment_hash e) added)"
      "comment_hash e ` set added \<inter> seen_comments_hashes st = {}"
      "seen ?ex = seen_comments_hashes st \<union> comment_hash e ` set added"
    by blast
  show ?thesis
  proof (cases "added = []")
    case True
    with a have "new_comments_on_this_page ?ex = 0" "seen ?ex = seen_comments_hashes st" by simp_all
    with assms(2) JList dedup_inv_break [OF assms(1), of "seen ?ex"] show ?thesis
      by (auto simp: process_data_def Let_def)
  next
    case False
    with a have "new_comments_on_this_page ?ex \<noteq> 0" by simp
    with assms(2) JList a(1) dedup_inv_continue [OF assms(1) a(3,4,5)] show ?thesis
      by (auto simp: process_data_def Let_def)
  qed
qed (use assms in \<open>auto simp: process_data_def\<close>)

lemma dedup_inv_fetched: "dedup_inv e (st\<lparr>fetched := l\<rparr>) = dedup_inv e st"
  by (simp add: dedup_inv_def)

lemma scrape_page_inv:
  assumes "dedup_inv e st"
    and "scrape_page e b p st = Continue st' \<or> scrape_page e b p st = Break st'
         \<or> scrape_page e b p st = Raise err st'"
  shows "dedup_inv e st'"
proof -
  let ?st0 = "st\<lparr>fetched := fetched st @ [page_url b p]\<rparr>"
  have i: "dedup_inv e ?st0" using assms(1) by (simp add: dedup_inv_fetched)
  from scrape_page_cases [of e b p st] consider
    "scrape_page e b p st = Break ?st0"
    | err' where "scrape_page e b p st = Raise err' ?st0"
    | data where "scrape_page e b p st = process_data e p data ?st0"
    by blast
  then show ?thesis
  proof cases
    case 1
    with assms(2) i show ?thesis by auto
  next
    case 2
    with assms(2) i show ?thesis by auto
  next
    case 3
    with assms(2) process_data_inv [OF i, of p data st' err] show ?thesis by simp
  qed
qed

lemma scrape_loop_inv:
  "dedup_inv e st \<Longrightarrow> scrape_loop e b p n st = (r, st') \<Longrightarrow> dedup_inv e st'"
proof (induction n arbitrary: p st)
  case 0
  then show ?case by simp
next
  case (Suc n)
  show ?case
  proof (cases "scrape_page e b p st")
    case (Continue st1)
    with Suc.prems(2) have l: "scrape_loop e b (Suc p) n st1 = (r, st')" by simp
    from Continue have "dedup_inv e st1" using scrape_page_inv [OF Suc.prems(1)] by blast
    from Suc.IH [OF this l] show ?thesis .
  next
    case (Break st1)
    from Break have "dedup_inv e st1" using scrape_page_inv [OF Suc.prems(1)] by blast
    with Suc.prems(2) Break show ?thesis by simp
  next
    case (Raise err st1)
    from Raise have "dedup_inv e st1" using scrape_page_inv [OF Suc.prems(1)] by blast
    with Suc.prems(2) Raise show ?thesis by simp
  qed
qed

lemma after_pages_inv: "after_pages e b k = Some st \<Longrightarrow> dedup_inv e st"
proof (induction k arbitrary: st)
  case 0
  then show ?case by (auto simp: dedup_inv_def init_state_def)
next
  case (Suc k)
  from Suc.prems obtain st0 where a: "after_pages e b k = Some st0"
    and s: "scrape_page e b (Suc k) st0 = Continue st"
    by (auto split: option.splits step.splits)
  from scrape_page_inv [OF Suc.IH [OF a]] s show ?case by blast
qed

lemma dedup_inv_init: "dedup_inv e init_state"
  by (simp add: dedup_inv_def init_state_def)

lemma comment_triple_json:
  "comment_triple (comment_json c)
     = (Some (comment_author c), Some (comment_date c), Some (comment_text c))"
  by (simp add: comment_triple_def comment_json_def json_field_def)

lemma comment_hash_triple:
  "comment_triple (comment_json c) = comment_triple (comment_json c') \<Longrightarrow>
     comment_hash e c = comment_hash e c'"
  by (simp add: comment_triple_json comment_hash_def)

lemma distinct_triples:
  assumes "distinct (map (comment_hash e) cs)"
  shows "distinct (map (comment_triple \<circ> comment_json) cs)"
proof -
  from assms have d: "distinct cs" and i: "inj_on (comment_hash e) (set cs)"
    by (simp_all add: distinct_map)
  have "inj_on (comment_triple \<circ> comment_json) (set cs)"
  proof (rule inj_onI)
    fix c c'
    assume "c \<in> set cs" "c' \<in> set cs"
      and "(comment_triple \<circ> comment_json) c = (comment_triple \<circ> comment_json) c'"
    then have "comment_hash e c = comment_hash e c'"
      using comment_hash_triple [of c c' e] by simp
    with i \<open>c \<in> set cs\<close> \<open>c' \<in> set cs\<close> show "c = c'" by (simp add: inj_on_def)
  qed
  with d show ?thesis by (simp add: distinct_map)
qed

subsection \<open>The cache\<close>

lemma map_of_dict_set: "map_of (dict_set d k v) = (map_of d)(k \<mapsto> v)"
  by (induction d) (auto simp: fun_eq_iff)


lemma scrape_loop_fetched:
  "scrape_loop e b p n st = (r, st') \<Longrightarrow> \<exists>l. fetched st' = fetched st @ l"
proof (induction n arbitrary: p st)
  case 0
  then show ?case by simp
next
  case (Suc n)
  show ?case
  proof (cases "scrape_page e b p st")
    case (Continue st1)
    with Suc.prems have "scrape_loop e b (Suc p) n st1 = (r, st')" by simp
    from Suc.IH [OF this] scrape_page_fetched [of e b p st st1] Continue show ?thesis by auto
  next
    case (Break st1)
    with Suc.prems scrape_page_fetched [of e b p st st1] show ?thesis by auto
  next
    case (Raise err st1)
    with Suc.prems scrape_page_fetched [of e b p st st1 err] show ?thesis by auto
  qed
qed


lemma process_data_comments:
  "process_data e p data st = Continue st' \<or> process_data e p data st = Break st'
     \<or> process_data e p data st = Raise err st' \<Longrightarrow>
   \<exists>rest. all_comments st' = all_comments st @ rest"
  by (auto simp: process_data_def Let_def split: json.splits if_splits)

lemma scrape_page_comments:
  assumes "scrape_page e b p st = Continue st' \<or> scrape_page e b p st = Break st'
     \<or> scrape_page e b p st = Raise err st'"
  shows "\<exists>rest. all_comments st' = all_comments st @ rest"
proof -
  let ?st0 = "st\<lparr>fetched := fetched st @ [page_url b p]\<rparr>"
  from scrape_page_cases [of e b p st] consider
    "scrape_page e b p st = Break ?st0"
    | err' where "scrape_page e b p st = Raise err' ?st0"
    | data where "scrape_page e b p st = process_data e p data ?st0"
    by blast
  then show ?thesis
  proof cases
    case 1
    with assms show ?thesis by auto
  next
    case 2
    with assms show ?thesis by auto
  next
    case 3
    with assms process_data_comments [of e p data ?st0 st' err] show ?thesis by simp
  qed
qed

lemma scrape_loop_comments:
  "scrape_loop e b p n st = (r, st') \<Longrightarrow> \<exists>rest. all_comments st' = all_comments st @ rest"
proof (induction n arbitrary: p st)
  case 0
  then show ?case by simp
next
  case (Suc n)
  show ?case
  proof (cases "scrape_page e b p st")
    case (Continue st1)
    with Suc.prems have "scrape_loop e b (Suc p) n st1 = (r, st')" by simp
    from Suc.IH [OF this] scrape_page_comments [of e b p st st1] Continue show ?thesis by auto
  next
    case (Break st1)
    with Suc.prems scrape_page_comments [of e b p st st1] show ?thesis by auto
  next
    case (Raise err st1)
    with Suc.prems scrape_page_comments [of e b p st st1 err] show ?thesis by auto
  qed
qed

lemma after_pages_prefix:
  assumes "after_pages e b k = Some stq" and "int k \<le> n"
    and "scrape_loop e b 1 (nat n) init_state = (x, st)"
  shows "\<exists>rest. all_comments st = all_comments stq @ rest"
    and "\<exists>l. fetched st = map (page_url b) [1..<Suc k] @ l"
proof -
  from assms(2) have "nat n = k + (nat n - k)" by linarith
  then have "scrape_loop e b 1 (nat n) init_state = scrape_loop e b (Suc k) (nat n - k) stq"
    using scrape_loop_after [OF assms(1), of "nat n - k"] by simp
  with assms(3) have l: "scrape_loop e b (Suc k) (nat n - k) stq = (x, st)" by simp
  from scrape_loop_comments [OF l] show "\<exists>rest. all_comments st = all_comments stq @ rest" .
  from scrape_loop_fetched [OF l] after_pages_fetched [OF assms(1)]
  show "\<exists>l. fetched st = map (page_url b) [1..<Suc k] @ l" by simp
qed

lemma scrape_page_parsed:
  assumes "requests_get e (page_url b p) = Some r" and "\<not> (1 < p \<and> redirected e r p)"
    and "nuxt_data r = Parsed data"
  shows "scrape_page e b p st
           = process_data e p data (st\<lparr>fetched := fetched st @ [page_url b p]\<rparr>)"
  using assms by (auto simp: scrape_page_def Let_def)





lemma json_field_result_json:
  "json_field (result_json st fname n) ''source'' = Some (JStr ''scrape'')"
  "json_field (result_json st fname n) ''max_pages_request'' = Some (JInt n)"
  by (simp_all add: json_field_def result_json_def)

lemma fresh_scrape_cases:
  obtains err st where "scrape_loop e b 1 (nat n) init_state = (Some err, st)"
      and "fresh_scrape e fs b fname n = (Inl err, fs, fetched st)"
  | st where "scrape_loop e b 1 (nat n) init_state = (None, st)"
      and "fresh_scrape e fs b fname n
             = write_and_return e fs fname (result_json st fname n) (fetched st)"
proof (cases "scrape_loop e b 1 (nat n) init_state")
  case (Pair x st)
  then show ?thesis using that by (cases x) (auto simp: fresh_scrape_def)
qed


lemma fresh_scrape_returned:
  assumes "fresh_scrape e fs b fname n = (Inr res, fs', urls)"
  obtains st where "scrape_loop e b 1 (nat n) init_state = (None, st)"
    and "res = result_json st fname n" and "fs' = fs(fname \<mapsto> Json res)"
    and "urls = fetched st" and "file_write e fname res = Written"
proof (rule fresh_scrape_cases [of e b n fs fname])
  fix err st
  assume "fresh_scrape e fs b fname n = (Inl err, fs, fetched st)"
  with assms show thesis by simp
next
  fix st
  assume l: "scrape_loop e b 1 (nat n) init_state = (None, st)"
    and f: "fresh_scrape e fs b fname n
             = write_and_return e fs fname (result_json st fname n) (fetched st)"
  from f assms have "res = result_json st fname n \<and> fs' = fs(fname \<mapsto> Json res)
      \<and> urls = fetched st \<and> file_write e fname res = Written"
    by (auto simp: write_and_return_def split: write_outcome.splits)
  with l that show thesis by blast
qed







subsection \<open>The recorded depth\<close>









lemma stored_depth_update:
  "stored_depth (fs(f \<mapsto> Json (empty_record f n))) f = Some n"
  by (simp add: stored_depth_def empty_record_def json_field_def)




text \<open>
  The two conditions on the file are needed. When \<^verbatim>\<open>json.dump\<close> raises after \<^verbatim>\<open>open\<close>
  has truncated the file, or when reading the file raises, the next request without
  \<^verbatim>\<open>force_refresh\<close> scrapes whatever its \<^verbatim>\<open>max_pages\<close>, and stores depth 2 where depth 5
  was.
\<close>

lemma cut_off_write_loses_depth:
  "stored_depth (run_requests stale_store
      [(dead_env\<lparr>file_write := \<lambda>f v. DumpRaises UnicodeEncodeError\<rparr>, sample_request 7 False),
       (dead_env, sample_request 2 False)]) ''deal_1.json'' = Some 2"
proof -
  let ?e = "dead_env\<lparr>file_write := \<lambda>f v. DumpRaises UnicodeEncodeError\<rparr>"
  have c: "cached_reply ?e stale_store (sample_request 7 False) ''deal_1.json'' = None"
    by (simp add: cached_reply_def stale_store_def sample_request_def cache_check_def
        py_get_default_def py_gt_def)
  have g: "requests_get ?e (page_url ''http://x/f/1'' 1) = None" by (simp add: dead_env_def)
  have 1: "fst (snd (scrape_comments ?e stale_store (sample_request 7 False)))
             = stale_store(''deal_1.json'' \<mapsto> Corrupt)"
    using scrape_comments_fresh [OF sample_file c]
      fresh_scrape_first_page_lost [of 7 ?e "''http://x/f/1''" stale_store "''deal_1.json''"] g
    by (simp add: sample_base write_and_return_def
        sample_request_def [of 7 False, THEN arg_cong [of _ _ max_pages]])
  have c2: "cached_reply dead_env (stale_store(''deal_1.json'' \<mapsto> Corrupt))
              (sample_request 2 False) ''deal_1.json'' = None"
    by (simp add: cached_reply_def cache_check_def)
  have 2: "scrape_comments dead_env (stale_store(''deal_1.json'' \<mapsto> Corrupt)) (sample_request 2 False)
          = (Inr (empty_record ''deal_1.json'' 2),
             stale_store(''deal_1.json'' \<mapsto> Json (empty_record ''deal_1.json'' 2)),
             [''http://x/f/1?sort=oldest&page=1''])"
    using scrape_comments_fresh [OF sample_file c2]
    by (simp add: sample_base dead_fresh
        sample_request_def [of 2 False, THEN arg_cong [of _ _ max_pages]])
  show ?thesis by (simp add: 1 2 stored_depth_update)
qed

lemma failed_read_loses_depth:
  "stored_depth (run_requests stale_store
      [(dead_env\<lparr>read_raises := \<lambda>f. True\<rparr>, sample_request 2 False)]) ''deal_1.json'' = Some 2"
proof -
  let ?e = "dead_env\<lparr>read_raises := \<lambda>f. True\<rparr>"
  have c: "cached_reply ?e stale_store (sample_request 2 False) ''deal_1.json'' = None"
    by (simp add: cached_reply_def stale_store_def)
  have g: "requests_get ?e (page_url ''http://x/f/1'' 1) = None" by (simp add: dead_env_def)
  have "fst (snd (scrape_comments ?e stale_store (sample_request 2 False)))
             = stale_store(''deal_1.json'' \<mapsto> Json (empty_record ''deal_1.json'' 2))"
    using scrape_comments_fresh [OF sample_file c]
      fresh_scrape_first_page_lost [of 2 ?e "''http://x/f/1''" stale_store "''deal_1.json''"] g
    by (simp add: sample_base write_and_return_def dead_env_def
        sample_request_def [of 2 False, THEN arg_cong [of _ _ max_pages]])
  then show ?thesis by (simp add: stored_depth_update)
qed

subsection \<open>Pages without new comments\<close>

lemma scrape_page_continue_parsed:
  assumes "scrape_page e b p st = Continue st'"
  shows "\<exists>r items. requests_get e (page_url b p) = Some r \<and> nuxt_data r = Parsed (JList items)
           \<and> seen_comments_hashes st'
               = seen_comments_hashes st \<union> comment_hash e ` set (candidates items)"
  using assms
  by (auto simp: scrape_page_def process_data_def Let_def extract_comments_seen
      split: option.splits if_splits nuxt.splits json.splits)

lemma after_pages_seen_page:
  "after_pages e b k = Some st \<Longrightarrow> 1 \<le> q \<Longrightarrow> q \<le> k \<Longrightarrow>
     requests_get e (page_url b q) = Some r \<Longrightarrow> nuxt_data r = Parsed (JList items) \<Longrightarrow>
     comment_hash e ` set (candidates items) \<subseteq> seen_comments_hashes st"
proof (induction k arbitrary: st)
  case 0
  then show ?case by simp
next
  case (Suc k)
  from Suc.prems(1) obtain st0 where a: "after_pages e b k = Some st0"
    and s: "scrape_page e b (Suc k) st0 = Continue st"
    by (auto split: option.splits step.splits)
  from scrape_page_continue_parsed [OF s] obtain r' items' where
    r': "requests_get e (page_url b (Suc k)) = Some r'" "nuxt_data r' = Parsed (JList items')"
    and seen: "seen_comments_hashes st
                 = seen_comments_hashes st0 \<union> comment_hash e ` set (candidates items')"
    by blast
  show ?case
  proof (cases "q = Suc k")
    case True
    with r' Suc.prems(4,5) have "items' = items" by simp
    with seen show ?thesis by simp
  next
    case False
    with Suc.prems(3) have "q \<le> k" by simp
    from Suc.IH [OF a Suc.prems(2) this Suc.prems(4,5)] seen show ?thesis by auto
  qed
qed

lemma process_data_no_new:
  assumes "new_comments_on_this_page (extract_comments e items (seen_comments_hashes st)) = 0"
  shows "\<exists>st'. process_data e p (JList items) st = Break st'
           \<and> all_comments st' = all_comments st \<and> fetched st' = fetched st"
  using assms by (simp add: process_data_def Let_def)

text \<open>
  C3: when the loop enters page \<open>p\<close>, the page is fetched and parsed, and the extractor
  finds no new comment on it -- in particular when every comment of the page already
  occurs on an earlier page \<open>q < p\<close> of this invocation, since the seen-set spans all
  pages -- the handler requests no page after \<open>p\<close> and the record it returns and writes
  holds exactly the comments accumulated on pages \<open>1..p-1\<close>. (Past the loop only the
  write of the cache file can raise.)
\<close>

theorem no_new_comments_stops_pagination:
  assumes "filename_of (strip_query (url req)) = Inr fname"
    and "cached_reply e fs req fname = None"
    and "after_pages e (strip_query (url req)) (p - 1) = Some st"
    and "1 \<le> p" and "int p \<le> max_pages req"
    and "requests_get e (page_url (strip_query (url req)) p) = Some r"
    and "\<not> (1 < p \<and> redirected e r p)"
    and "nuxt_data r = Parsed (JList items)"
    and "new_comments_on_this_page (extract_comments e items (seen_comments_hashes st)) = 0
         \<or> (\<exists>q r' items'. 1 \<le> q \<and> q < p
               \<and> requests_get e (page_url (strip_query (url req)) q) = Some r'
               \<and> nuxt_data r' = Parsed (JList items')
               \<and> set (candidates items) \<subseteq> set (candidates items'))"
  shows "\<exists>res. scrape_comments e fs req
                 = (case file_write e fname res of
                      Written \<Rightarrow> (Inr res, fs(fname \<mapsto> Json res),
                                  map (page_url (strip_query (url req))) [1..<Suc p])
                    | OpenRaises err \<Rightarrow> (Inl err, fs,
                                  map (page_url (strip_query (url req))) [1..<Suc p])
                    | DumpRaises err \<Rightarrow> (Inl err, fs(fname \<mapsto> Corrupt),
                                  map (page_url (strip_query (url req))) [1..<Suc p]))
           \<and> result_comments res = map comment_json (all_comments st)"
proof -
  let ?b = "strip_query (url req)"
  let ?st0 = "st\<lparr>fetched := fetched st @ [page_url ?b p]\<rparr>"
  have zero: "new_comments_on_this_page (extract_comments e items (seen_comments_hashes st)) = 0"
    using assms(9)
  proof
    assume "\<exists>q r' items'. 1 \<le> q \<and> q < p
               \<and> requests_get e (page_url ?b q) = Some r'
               \<and> nuxt_data r' = Parsed (JList items')
               \<and> set (candidates items) \<subseteq> set (candidates items')"
    then obtain q r' items' where q: "1 \<le> q" "q < p"
      and r': "requests_get e (page_url ?b q) = Some r'" "nuxt_data r' = Parsed (JList items')"
      and sub: "set (candidates items) \<subseteq> set (candidates items')"
      by blast
    from q(2) have "q \<le> p - 1" by simp
    from after_pages_seen_page [OF assms(3) q(1) this r']
    have "comment_hash e ` set (candidates items') \<subseteq> seen_comments_hashes st" .
    with sub have "comment_hash e ` set (candidates items) \<subseteq> seen_comments_hashes st"
      by blast
    then show ?thesis by (rule extract_comments_repeat)
  qed
  then have "new_comments_on_this_page (extract_comments e items (seen_comments_hashes ?st0)) = 0"
    by simp
  from process_data_no_new [OF this, of p] obtain st' where
    brk: "process_data e p (JList items) ?st0 = Break st'"
    and ac: "all_comments st' = all_comments st"
    by auto
  have b: "scrape_page e ?b p st = Break st'"
    using scrape_page_parsed [OF assms(6,7,8), of st] brk by simp
  from scrape_stops_at [OF assms(1,2,3,4,5) b ac] show ?thesis by blast
qed

theorem no_new_comments_stops_pagination_witness:
  "\<exists>res. scrape_comments (sample_env (Some sample_page)) Map.empty (sample_request 5 False)
          = (Inr res, [''deal_1.json'' \<mapsto> Json res],
                 [''http://x/f/1?sort=oldest&page=1'', ''http://x/f/1?sort=oldest&page=2''])
        \<and> result_comments res =
            [JDict [(''type'', JStr ''Featured''), (''author'', JStr ''bob''),
                    (''text'', JStr ''hi''), (''date'', JStr [])]]"
proof -
  let ?e = "sample_env (Some sample_page)"
  let ?items = "[JDict [(''commentText'', JInt 1), (''author'', JInt 2)], JStr ''hi'', JStr ''bob'']"
  have 3: "after_pages ?e (strip_query (url (sample_request 5 False))) (2 - 1) = Some sample_state"
    using sample_after_1 [of "Some sample_page"] by (simp add: sample_base del: after_pages.simps)
  have 4: "(1::nat) \<le> 2" by simp
  have 5: "int 2 \<le> max_pages (sample_request 5 False)" by (simp add: sample_request_def)
  have 6: "requests_get ?e (page_url (strip_query (url (sample_request 5 False))) 2) = Some sample_page"
    by (simp add: sample_base page_url_2 sample_env_def)
  have 7: "\<not> (1 < (2::nat) \<and> redirected ?e sample_page 2)"
    by (simp add: redirected_def sample_page_def sample_env_def)
  have 8: "nuxt_data sample_page = Parsed (JList ?items)" by (simp add: sample_page_def)
  have 1: "requests_get ?e (page_url (strip_query (url (sample_request 5 False))) 1) = Some sample_page"
    using page_url_1 [of "''http://x/f/1''"] by (simp add: sample_base sample_env_def)
  have 9: "new_comments_on_this_page (extract_comments ?e ?items (seen_comments_hashes sample_state)) = 0
         \<or> (\<exists>q r' items'. 1 \<le> q \<and> q < (2::nat)
               \<and> requests_get ?e (page_url (strip_query (url (sample_request 5 False))) q) = Some r'
               \<and> nuxt_data r' = Parsed (JList items')
               \<and> set (candidates ?items) \<subseteq> set (candidates items'))"
    using 1 8 by (intro disjI2 exI [of _ 1] exI [of _ sample_page] exI [of _ ?items]) simp
  from no_new_comments_stops_pagination [OF sample_file sample_cached_empty 3 4 5 6 7 8 9]
  show ?thesis
    by (simp add: sample_written sample_base page_url_1 page_url_2 page_url_2' sample_state_def
        comment_json_def upt_rec)
qed

subsection \<open>One entry for each comment\<close>

lemma scrape_page_continue_comments:
  assumes "scrape_page e b p st = Continue st'"
  shows "\<exists>r items. requests_get e (page_url b p) = Some r \<and> nuxt_data r = Parsed (JList items)
           \<and> all_comments st'
               = all_comments st @ page_comments (extract_comments e items (seen_comments_hashes st))"
  using assms
  by (auto simp: scrape_page_def process_data_def Let_def
      split: option.splits if_splits nuxt.splits json.splits)

lemma after_pages_origin:
  "after_pages e b k = Some st \<Longrightarrow> c \<in> set (all_comments st) \<Longrightarrow>
     \<exists>q r items. 1 \<le> q \<and> q \<le> k \<and> requests_get e (page_url b q) = Some r
        \<and> nuxt_data r = Parsed (JList items) \<and> c \<in> set (candidates items)"
proof (induction k arbitrary: st)
  case 0
  then show ?case by (auto simp: init_state_def)
next
  case (Suc k)
  from Suc.prems(1) obtain st0 where a: "after_pages e b k = Some st0"
    and s: "scrape_page e b (Suc k) st0 = Continue st"
    by (auto split: option.splits step.splits)
  from scrape_page_continue_comments [OF s] obtain r items where
    r: "requests_get e (page_url b (Suc k)) = Some r" "nuxt_data r = Parsed (JList items)"
    and ac: "all_comments st
               = all_comments st0 @ page_comments (extract_comments e items (seen_comments_hashes st0))"
    by blast
  from Suc.prems(2) ac consider "c \<in> set (all_comments st0)"
    | "c \<in> set (page_comments (extract_comments e items (seen_comments_hashes st0)))"
    by auto
  then show ?case
  proof cases
    case 1
    from Suc.IH [OF a 1] obtain q r' items' where "1 \<le> q" "q \<le> k"
      "requests_get e (page_url b q) = Some r'" "nuxt_data r' = Parsed (JList items')"
      "c \<in> set (candidates items')" by blast
    then show ?thesis by (intro exI [of _ q] exI [of _ r'] exI [of _ items']) simp
  next
    case 2
    with extract_comments_subset [of e items "seen_comments_hashes st0"]
    have "c \<in> set (candidates items)" by blast
    with r show ?thesis by (intro exI [of _ "Suc k"] exI [of _ r] exI [of _ items]) simp
  qed
qed

lemma distinct_filter_one:
  "distinct (map f xs) \<Longrightarrow> x \<in> set xs \<Longrightarrow> length (filter (\<lambda>y. f y = f x) xs) = 1"
proof (induction xs)
  case Nil
  then show ?case by simp
next
  case (Cons y ys)
  show ?case
  proof (cases "f y = f x")
    case True
    with Cons.prems(1) have "\<forall>z \<in> set ys. f z \<noteq> f x" by (auto simp: image_iff)
    then have "filter (\<lambda>y. f y = f x) ys = []" by (simp add: filter_empty_conv)
    with True show ?thesis by simp
  next
    case False
    with Cons.prems have "x \<in> set ys" "distinct (map f ys)" by auto
    with Cons.IH False show ?thesis by simp
  qed
qed

lemma cached_reply_source:
  "cached_reply e fs req fname = Some c \<Longrightarrow> json_field c ''source'' = Some (JStr ''cache'')"
  by (auto simp: cached_reply_def cache_check_def json_field_def map_of_dict_set
      split: if_splits option.splits cache_file.splits json.splits bool.splits)

text \<open>
  Apart from clashes of the key, the record a scrape returns has one entry for each
  comment: no two entries of its comment list have the same \<open>(author, date, text)\<close>, and
  for every comment \<open>c\<close> extracted on a page \<open>q\<close> that ran to the end of the loop body,
  whichever shape produced it, exactly one entry has the triple of \<open>c\<close> -- provided that
  no comment extracted on pages \<open>1..q\<close> with another triple has the same key.
\<close>

lemma one_entry_for_each_triple:
  assumes "scrape_comments e fs req = (Inr res, fs', urls)"
    and "json_field res ''source'' = Some (JStr ''scrape'')"
  shows "distinct (map comment_triple (result_comments res))
       \<and> (\<forall>q r items c.
             1 \<le> q \<and> int q \<le> max_pages req \<and> after_pages e (strip_query (url req)) q \<noteq> None
             \<and> requests_get e (page_url (strip_query (url req)) q) = Some r
             \<and> nuxt_data r = Parsed (JList items) \<and> c \<in> set (candidates items)
             \<and> (\<forall>q' r' items' c'.
                   1 \<le> q' \<and> q' \<le> q
                   \<and> requests_get e (page_url (strip_query (url req)) q') = Some r'
                   \<and> nuxt_data r' = Parsed (JList items') \<and> c' \<in> set (candidates items')
                   \<and> comment_hash e c' = comment_hash e c \<longrightarrow>
                   comment_author c' = comment_author c \<and> comment_date c' = comment_date c
                   \<and> comment_text c' = comment_text c) \<longrightarrow>
             length (filter (\<lambda>j. comment_triple j
                                   = (Some (comment_author c), Some (comment_date c),
                                      Some (comment_text c)))
                       (result_comments res)) = 1)"
proof -
  let ?b = "strip_query (url req)"
  from assms(1) obtain fname where fn: "filename_of ?b = Inr fname"
    by (auto simp: scrape_comments_def Let_def split: sum.splits)
  have "cached_reply e fs req fname = None"
  proof (cases "cached_reply e fs req fname")
    case (Some c)
    with assms(1) fn have "res = c" by (simp add: scrape_comments_def)
    with cached_reply_source [OF Some] assms(2) show ?thesis by simp
  qed simp
  from scrape_comments_fresh [OF fn this] assms(1)
  have "fresh_scrape e fs ?b fname (max_pages req) = (Inr res, fs', urls)" by simp
  then obtain st where
    l: "scrape_loop e ?b 1 (nat (max_pages req)) init_state = (None, st)"
    and r: "res = result_json st fname (max_pages req)"
    by (rule fresh_scrape_returned)
  have rc: "result_comments res = map comment_json (all_comments st)"
    using r by (simp add: result_comments_result_json)
  from scrape_loop_inv [OF dedup_inv_init l]
  have di: "distinct (map (comment_hash e) (all_comments st))"
    by (simp add: dedup_inv_def)
  have 1: "distinct (map comment_triple (result_comments res))"
    using rc distinct_triples [OF di] by simp
  have 2: "length (filter (\<lambda>j. comment_triple j
                                   = (Some (comment_author c), Some (comment_date c),
                                      Some (comment_text c)))
                       (result_comments res)) = 1"
    if h: "1 \<le> q \<and> int q \<le> max_pages req \<and> after_pages e ?b q \<noteq> None
             \<and> requests_get e (page_url ?b q) = Some r
             \<and> nuxt_data r = Parsed (JList items) \<and> c \<in> set (candidates items)"
      and nc: "\<And>q' r' items' c'.
                   1 \<le> q' \<and> q' \<le> q
                   \<and> requests_get e (page_url ?b q') = Some r'
                   \<and> nuxt_data r' = Parsed (JList items') \<and> c' \<in> set (candidates items')
                   \<and> comment_hash e c' = comment_hash e c \<Longrightarrow>
                   comment_author c' = comment_author c \<and> comment_date c' = comment_date c
                   \<and> comment_text c' = comment_text c"
    for q r items c
  proof -
    from h obtain stq where a: "after_pages e ?b q = Some stq" by auto
    from h have "comment_hash e ` set (candidates items) \<subseteq> seen_comments_hashes stq"
      using after_pages_seen_page [OF a, of q r items] by simp
    with h have "comment_hash e c \<in> seen_comments_hashes stq" by blast
    with after_pages_inv [OF a] obtain c' where c': "c' \<in> set (all_comments stq)"
      and hc: "comment_hash e c' = comment_hash e c"
      by (auto simp: dedup_inv_def)
    from after_pages_origin [OF a c'] obtain q' r' items' where
      "1 \<le> q' \<and> q' \<le> q \<and> requests_get e (page_url ?b q') = Some r'
         \<and> nuxt_data r' = Parsed (JList items') \<and> c' \<in> set (candidates items')"
      by blast
    with hc have "1 \<le> q' \<and> q' \<le> q \<and> requests_get e (page_url ?b q') = Some r'
         \<and> nuxt_data r' = Parsed (JList items') \<and> c' \<in> set (candidates items')
         \<and> comment_hash e c' = comment_hash e c" by simp
    from nc [OF this] have t: "comment_triple (comment_json c')
        = (Some (comment_author c), Some (comment_date c), Some (comment_text c))"
      by (simp add: comment_triple_json)
    from h have "int q \<le> max_pages req" by simp
    from after_pages_prefix(1) [OF a this l] c' have "c' \<in> set (all_comments st)" by auto
    with rc have "comment_json c' \<in> set (result_comments res)" by simp
    from distinct_filter_one [OF 1 this] t show ?thesis by simp
  qed
  have 3: "\<forall>q r items c.
             1 \<le> q \<and> int q \<le> max_pages req \<and> after_pages e ?b q \<noteq> None
             \<and> requests_get e (page_url ?b q) = Some r
             \<and> nuxt_data r = Parsed (JList items) \<and> c \<in> set (candidates items)
             \<and> (\<forall>q' r' items' c'.
                   1 \<le> q' \<and> q' \<le> q
                   \<and> requests_get e (page_url ?b q') = Some r'
                   \<and> nuxt_data r' = Parsed (JList items') \<and> c' \<in> set (candidates items')
                   \<and> comment_hash e c' = comment_hash e c \<longrightarrow>
                   comment_author c' = comment_author c \<and> comment_date c' = comment_date c
                   \<and> comment_text c' = comment_text c) \<longrightarrow>
             length (filter (\<lambda>j. comment_triple j
                                   = (Some (comment_author c), Some (comment_date c),
                                      Some (comment_text c)))
                       (result_comments res)) = 1"
  proof (intro allI impI)
    fix q r items c
    assume g: "1 \<le> q \<and> int q \<le> max_pages req \<and> after_pages e ?b q \<noteq> None
             \<and> requests_get e (page_url ?b q) = Some r
             \<and> nuxt_data r = Parsed (JList items) \<and> c \<in> set (candidates items)
             \<and> (\<forall>q' r' items' c'.
                   1 \<le> q' \<and> q' \<le> q
                   \<and> requests_get e (page_url ?b q') = Some r'
                   \<and> nuxt_data r' = Parsed (JList items') \<and> c' \<in> set (candidates items')
                   \<and> comment_hash e c' = comment_hash e c \<longrightarrow>
                   comment_author c' = comment_author c \<and> comment_date c' = comment_date c
                   \<and> comment_text c' = comment_text c)"
    then have g1: "1 \<le> q \<and> int q \<le> max_pages req \<and> after_pages e ?b q \<noteq> None
             \<and> requests_get e (page_url ?b q) = Some r
             \<and> nuxt_data r = Parsed (JList items) \<and> c \<in> set (candidates items)"
      by (elim conjE) (intro conjI)
    from g have g2: "\<forall>q' r' items' c'.
                   1 \<le> q' \<and> q' \<le> q
                   \<and> requests_get e (page_url ?b q') = Some r'
                   \<and> nuxt_data r' = Parsed (JList items') \<and> c' \<in> set (candidates items')
                   \<and> comment_hash e c' = comment_hash e c \<longrightarrow>
                   comment_author c' = comment_author c \<and> comment_date c' = comment_date c
                   \<and> comment_text c' = comment_text c"
      by (elim conjE)
    show "length (filter (\<lambda>j. comment_triple j
                                   = (Some (comment_author c), Some (comment_date c),
                                      Some (comment_text c)))
                       (result_comments res)) = 1"
      by (rule 2 [OF g1]) (rule g2 [rule_format])
  qed
  from 1 3 show ?thesis by (rule conjI)
qed

lemma separator_clash_key:
  "comment_hash e \<lparr>comment_type = ''Featured'', comment_author = JStr ''a'',
                    comment_text = JStr ''d'', comment_date = JStr ''b|c''\<rparr>
     = comment_hash e \<lparr>comment_type = t, comment_author = JStr ''a|b'',
                       comment_text = JStr ''d'', comment_date = JStr ''c''\<rparr>"
  by (simp add: comment_hash_def fmt_def)

lemma clash_candidates:
  "candidates clash_items =
     [\<lparr>comment_type = ''Featured'', comment_author = JStr ''a'',
       comment_text = JStr ''d'', comment_date = JStr ''b|c''\<rparr>,
      \<lparr>comment_type = ''Featured'', comment_author = JStr ''a|b'',
       comment_text = JStr ''d'', comment_date = JStr ''c''\<rparr>,
      \<lparr>comment_type = ''Main'', comment_author = JStr ''a|b'',
       comment_text = JStr ''d'', comment_date = JStr ''c''\<rparr>]"
  by (simp add: candidates_def item_candidates_def clash_items_def has_key_def
      featured_comment_def main_comment_def py_get_def resolve_ref_def isinstance_int_def
      resolve_text_def or_empty_def)

lemma clash_extract:
  "extract_comments clash_env clash_items {} =
     \<lparr>seen = {7}, new_comments_on_this_page = 1,
      page_comments = [\<lparr>comment_type = ''Featured'', comment_author = JStr ''a'',
                        comment_text = JStr ''d'', comment_date = JStr ''b|c''\<rparr>]\<rparr>"
  by (simp add: extract_comments_candidates clash_candidates add_comment_def comment_hash_def
      fmt_def clash_env_def)

lemma clash_loop:
  "scrape_loop clash_env ''http://x/f/1'' 1 (Suc 0) init_state =
     (None, \<lparr>seen_comments_hashes = {7}, deal_title = [], deal_description = [],
             all_comments = [\<lparr>comment_type = ''Featured'', comment_author = JStr ''a'',
                              comment_text = JStr ''d'', comment_date = JStr ''b|c''\<rparr>],
             fetched = [''http://x/f/1?sort=oldest&page=1'']\<rparr>)"
proof -
  have g: "requests_get clash_env (page_url ''http://x/f/1'' 1)
             = Some \<lparr>final_page_list = None, nuxt_data = Parsed (JList clash_items)\<rparr>"
    using page_url_1 [of "''http://x/f/1''"] by (simp add: clash_env_def)
  have m: "extract_metadata clash_items ([], []) = ([], [])"
    by (simp add: extract_metadata_def clash_items_def has_key_def is_minus_one_def Let_def)
  have "scrape_page clash_env ''http://x/f/1'' 1 init_state
          = process_data clash_env 1 (JList clash_items)
              (init_state\<lparr>fetched := fetched init_state @ [page_url ''http://x/f/1'' 1]\<rparr>)"
    using scrape_page_parsed [OF g] by simp
  then show ?thesis
    using page_url_1 [of "''http://x/f/1''"]
    by (simp add: process_data_def Let_def init_state_def clash_extract m)
qed

text \<open>
  C7: two extracted comments with the same \<open>(author, date, text)\<close> are to collapse to a
  single entry of the output list. The key of a comment is the hash of
  \<^verbatim>\<open>f"{author}|{date}|{text}"\<close>, and the triples \<open>(a, b|c, d)\<close> and \<open>(a|b, c, d)\<close> format to
  the same string. On a page that holds a comment of the first triple and then, in both
  shapes, a comment of the second, the three extracted comments leave one entry, of the
  first triple; the two comments with the triple \<open>(a|b, c, d)\<close> have no entry at all.
\<close>

theorem separator_clash_evaluation:
  "candidates clash_items =
     [\<lparr>comment_type = ''Featured'', comment_author = JStr ''a'',
       comment_text = JStr ''d'', comment_date = JStr ''b|c''\<rparr>,
      \<lparr>comment_type = ''Featured'', comment_author = JStr ''a|b'',
       comment_text = JStr ''d'', comment_date = JStr ''c''\<rparr>,
      \<lparr>comment_type = ''Main'', comment_author = JStr ''a|b'',
       comment_text = JStr ''d'', comment_date = JStr ''c''\<rparr>]
   \<and> fst (scrape_comments clash_env Map.empty (sample_request 1 False)) =
       Inr (JDict [(''deal_title'', JStr []), (''deal_description'', JStr []),
                   (''count'', JInt 1),
                   (''comments'', JList
                      [JDict [(''type'', JStr ''Featured''), (''author'', JStr ''a''),
                              (''text'', JStr ''d''), (''date'', JStr ''b|c'')]]),
                   (''saved_to'', JStr ''deal_1.json''), (''source'', JStr ''scrape''),
                   (''max_pages_request'', JInt 1)])
   \<and> filter (\<lambda>j. comment_triple j = (Some (JStr ''a|b''), Some (JStr ''c''), Some (JStr ''d'')))
        (case fst (scrape_comments clash_env Map.empty (sample_request 1 False)) of
           Inr res \<Rightarrow> result_comments res | Inl err \<Rightarrow> []) = []"
proof -
  have s: "scrape_comments clash_env Map.empty (sample_request 1 False)
             = fresh_scrape clash_env Map.empty ''http://x/f/1'' ''deal_1.json'' 1"
    by (rule sample_fresh)
  have f: "fst (fresh_scrape clash_env Map.empty ''http://x/f/1'' ''deal_1.json'' 1) =
       Inr (JDict [(''deal_title'', JStr []), (''deal_description'', JStr []),
                   (''count'', JInt 1),
                   (''comments'', JList
                      [JDict [(''type'', JStr ''Featured''), (''author'', JStr ''a''),
                              (''text'', JStr ''d''), (''date'', JStr ''b|c'')]]),
                   (''saved_to'', JStr ''deal_1.json''), (''source'', JStr ''scrape''),
                   (''max_pages_request'', JInt 1)])"
    using clash_loop
    by (simp add: fresh_scrape_def write_and_return_def result_json_def comment_json_def
        clash_env_def del: scrape_loop.simps)
  show ?thesis
    by (simp add: clash_candidates s f result_comments_def json_field_def comment_triple_def)
qed

text \<open>Without a clash of keys the entries are as the claim says: in the thread of
  \<open>twin_env\<close> the comment of bob is extracted three times, in both shapes on page 1 and
  in the main shape on page 2, and the record has one entry for it.\<close>

lemma twin_candidates_1:
  "candidates [JDict [(''commentText'', JInt 1), (''author'', JInt 2),
                      (''commentContent'', JInt 1), (''commentAuthor'', JInt 3)],
               JStr ''hi'', JStr ''bob'', JDict [(''username'', JInt 2)]] =
     [\<lparr>comment_type = ''Featured'', comment_author = JStr ''bob'',
       comment_text = JStr ''hi'', comment_date = JStr []\<rparr>,
      \<lparr>comment_type = ''Main'', comment_author = JStr ''bob'',
       comment_text = JStr ''hi'', comment_date = JStr []\<rparr>]"
  by (simp add: candidates_def item_candidates_def has_key_def
      featured_comment_def main_comment_def py_get_def resolve_ref_def isinstance_int_def
      resolve_text_def or_empty_def)

lemma twin_candidates_2:
  "candidates [JDict [(''commentContent'', JInt 1), (''commentAuthor'', JInt 3)],
               JStr ''hi'', JStr ''bob'', JDict [(''username'', JInt 2)],
               JDict [(''commentText'', JInt 5), (''author'', JInt 2)],
               JStr ''hello''] =
     [\<lparr>comment_type = ''Main'', comment_author = JStr ''bob'',
       comment_text = JStr ''hi'', comment_date = JStr []\<rparr>,
      \<lparr>comment_type = ''Featured'', comment_author = JStr ''bob'',
       comment_text = JStr ''hello'', comment_date = JStr []\<rparr>]"
  by (simp add: candidates_def item_candidates_def has_key_def
      featured_comment_def main_comment_def py_get_def resolve_ref_def isinstance_int_def
      resolve_text_def or_empty_def)

lemma twin_get_1:
  "requests_get twin_env (page_url ''http://x/f/1'' (Suc 0)) =
     Some \<lparr>final_page_list = None,
           nuxt_data = Parsed (JList
             [JDict [(''commentText'', JInt 1), (''author'', JInt 2),
                     (''commentContent'', JInt 1), (''commentAuthor'', JInt 3)],
              JStr ''hi'', JStr ''bob'', JDict [(''username'', JInt 2)]])\<rparr>"
  by (simp add: page_url_1 twin_env_def)

lemma twin_get_2:
  "requests_get twin_env (page_url ''http://x/f/1'' (Suc (Suc 0))) =
     Some \<lparr>final_page_list = Some [''2''],
           nuxt_data = Parsed (JList
             [JDict [(''commentContent'', JInt 1), (''commentAuthor'', JInt 3)],
              JStr ''hi'', JStr ''bob'', JDict [(''username'', JInt 2)],
              JDict [(''commentText'', JInt 5), (''author'', JInt 2)],
              JStr ''hello''])\<rparr>"
  by (simp add: page_url_2' twin_env_def)

lemma twin_page_1:
  "scrape_page twin_env ''http://x/f/1'' (Suc 0) init_state =
     Continue \<lparr>seen_comments_hashes = {7}, deal_title = [], deal_description = [],
       all_comments = [\<lparr>comment_type = ''Featured'', comment_author = JStr ''bob'',
                        comment_text = JStr ''hi'', comment_date = JStr []\<rparr>],
       fetched = [''http://x/f/1?sort=oldest&page=1'']\<rparr>"
  by (simp add: scrape_page_def process_data_def extract_metadata_def is_minus_one_def
      has_key_def py_get_def resolve_ref_def isinstance_int_def extract_comments_def
      extract_item_def featured_comment_def main_comment_def resolve_text_def or_empty_def
      add_comment_def comment_hash_def fmt_def redirected_def Let_def page_url_1 twin_env_def
      init_state_def)

lemma twin_page_2:
  "scrape_page twin_env ''http://x/f/1'' (Suc (Suc 0))
     \<lparr>seen_comments_hashes = {7}, deal_title = [], deal_description = [],
       all_comments = [\<lparr>comment_type = ''Featured'', comment_author = JStr ''bob'',
                        comment_text = JStr ''hi'', comment_date = JStr []\<rparr>],
       fetched = [''http://x/f/1?sort=oldest&page=1'']\<rparr> =
     Continue \<lparr>seen_comments_hashes = {10, 7}, deal_title = [], deal_description = [],
       all_comments = [\<lparr>comment_type = ''Featured'', comment_author = JStr ''bob'',
                        comment_text = JStr ''hi'', comment_date = JStr []\<rparr>,
                       \<lparr>comment_type = ''Featured'', comment_author = JStr ''bob'',
                        comment_text = JStr ''hello'', comment_date = JStr []\<rparr>],
       fetched = [''http://x/f/1?sort=oldest&page=1'', ''http://x/f/1?sort=oldest&page=2'']\<rparr>"
  by (simp add: scrape_page_def process_data_def extract_metadata_def is_minus_one_def
      has_key_def py_get_def resolve_ref_def isinstance_int_def extract_comments_def
      extract_item_def featured_comment_def main_comment_def resolve_text_def or_empty_def
      add_comment_def comment_hash_def fmt_def redirected_def Let_def page_url_2' twin_env_def)

lemma twin_after_2: "after_pages twin_env ''http://x/f/1'' (Suc (Suc 0)) \<noteq> None"
  by (simp add: twin_page_1 twin_page_2)

lemma twin_loop:
  "scrape_loop twin_env ''http://x/f/1'' 1 (Suc (Suc (Suc n))) init_state =
     (None, \<lparr>seen_comments_hashes = {10, 7}, deal_title = [], deal_description = [],
       all_comments = [\<lparr>comment_type = ''Featured'', comment_author = JStr ''bob'',
                        comment_text = JStr ''hi'', comment_date = JStr []\<rparr>,
                       \<lparr>comment_type = ''Featured'', comment_author = JStr ''bob'',
                        comment_text = JStr ''hello'', comment_date = JStr []\<rparr>],
       fetched = [''http://x/f/1?sort=oldest&page=1'', ''http://x/f/1?sort=oldest&page=2'',
                  ''http://x/f/1?sort=oldest&page=3'']\<rparr>)"
proof -
  have 3: "requests_get twin_env (page_url ''http://x/f/1'' (Suc (Suc (Suc 0)))) = None"
    by (simp add: page_url_3 twin_env_def)
  show ?thesis
    by (simp add: twin_page_1 twin_page_2 scrape_page_fetch_failed [OF 3] page_url_3)
qed

lemma twin_scrape:
  "scrape_comments twin_env Map.empty (sample_request 5 False) =
     (Inr (result_json
        \<lparr>seen_comments_hashes = {10, 7}, deal_title = [], deal_description = [],
         all_comments = [\<lparr>comment_type = ''Featured'', comment_author = JStr ''bob'',
                        comment_text = JStr ''hi'', comment_date = JStr []\<rparr>,
                       \<lparr>comment_type = ''Featured'', comment_author = JStr ''bob'',
                        comment_text = JStr ''hello'', comment_date = JStr []\<rparr>],
         fetched = [''http://x/f/1?sort=oldest&page=1'', ''http://x/f/1?sort=oldest&page=2'',
                  ''http://x/f/1?sort=oldest&page=3'']\<rparr> ''deal_1.json'' 5),
      [''deal_1.json'' \<mapsto> Json (result_json
        \<lparr>seen_comments_hashes = {10, 7}, deal_title = [], deal_description = [],
         all_comments = [\<lparr>comment_type = ''Featured'', comment_author = JStr ''bob'',
                        comment_text = JStr ''hi'', comment_date = JStr []\<rparr>,
                       \<lparr>comment_type = ''Featured'', comment_author = JStr ''bob'',
                        comment_text = JStr ''hello'', comment_date = JStr []\<rparr>],
         fetched = [''http://x/f/1?sort=oldest&page=1'', ''http://x/f/1?sort=oldest&page=2'',
                  ''http://x/f/1?sort=oldest&page=3'']\<rparr> ''deal_1.json'' 5)],
      [''http://x/f/1?sort=oldest&page=1'', ''http://x/f/1?sort=oldest&page=2'',
       ''http://x/f/1?sort=oldest&page=3''])"
proof -
  have w: "file_write twin_env f v = Written" for f v by (simp add: twin_env_def)
  have "nat 5 = Suc (Suc (Suc 2))" by simp
  then show ?thesis
    using twin_loop [of 2]
    by (simp add: sample_fresh fresh_scrape_def write_and_return_def w
        del: scrape_loop.simps)
qed

lemma twin_one_entry:
  "\<exists>res fs' urls. scrape_comments twin_env Map.empty (sample_request 5 False) = (Inr res, fs', urls)
     \<and> result_comments res =
          [JDict [(''type'', JStr ''Featured''), (''author'', JStr ''bob''),
                  (''text'', JStr ''hi''), (''date'', JStr [])],
           JDict [(''type'', JStr ''Featured''), (''author'', JStr ''bob''),
                  (''text'', JStr ''hello''), (''date'', JStr [])]]
     \<and> distinct (map comment_triple (result_comments res))
     \<and> length (filter (\<lambda>j. comment_triple j = (Some (JStr ''bob''), Some (JStr []), Some (JStr ''hi'')))
                 (result_comments res)) = 1"
proof -
  let ?st = "\<lparr>seen_comments_hashes = {10, 7}, deal_title = [], deal_description = [],
         all_comments = [\<lparr>comment_type = ''Featured'', comment_author = JStr ''bob'',
                        comment_text = JStr ''hi'', comment_date = JStr []\<rparr>,
                       \<lparr>comment_type = ''Featured'', comment_author = JStr ''bob'',
                        comment_text = JStr ''hello'', comment_date = JStr []\<rparr>],
         fetched = [''http://x/f/1?sort=oldest&page=1'', ''http://x/f/1?sort=oldest&page=2'',
                  ''http://x/f/1?sort=oldest&page=3'']\<rparr>"
  let ?res = "result_json ?st ''deal_1.json'' 5"
  let ?items = "[JDict [(''commentContent'', JInt 1), (''commentAuthor'', JInt 3)],
                        JStr ''hi'', JStr ''bob'', JDict [(''username'', JInt 2)],
                        JDict [(''commentText'', JInt 5), (''author'', JInt 2)],
                        JStr ''hello'']"
  let ?r = "\<lparr>final_page_list = Some [''2''], nuxt_data = Parsed (JList ?items)\<rparr>"
  let ?c = "\<lparr>comment_type = ''Main'', comment_author = JStr ''bob'',
                          comment_text = JStr ''hi'', comment_date = JStr []\<rparr>"
  let ?b = "strip_query (url (sample_request 5 False))"
  have b: "?b = ''http://x/f/1''" by (rule sample_base)
  have s: "json_field ?res ''source'' = Some (JStr ''scrape'')"
    by (simp add: json_field_result_json)
  have c: "result_comments ?res =
          [JDict [(''type'', JStr ''Featured''), (''author'', JStr ''bob''),
                  (''text'', JStr ''hi''), (''date'', JStr [])],
           JDict [(''type'', JStr ''Featured''), (''author'', JStr ''bob''),
                  (''text'', JStr ''hello''), (''date'', JStr [])]]"
    by (simp add: result_comments_result_json comment_json_def)
  have nc: "comment_author c' = comment_author ?c \<and> comment_date c' = comment_date ?c
              \<and> comment_text c' = comment_text ?c"
    if h: "1 \<le> q' \<and> q' \<le> 2 \<and> requests_get twin_env (page_url ?b q') = Some r'
           \<and> nuxt_data r' = Parsed (JList items') \<and> c' \<in> set (candidates items')
           \<and> comment_hash twin_env c' = comment_hash twin_env ?c"
    for q' r' items' c'
  proof -
    from h have "q' = Suc 0 \<or> q' = Suc (Suc 0)" by auto
    then show ?thesis
    proof
      assume "q' = Suc 0"
      with h twin_get_1 have "c' \<in> set (candidates
              [JDict [(''commentText'', JInt 1), (''author'', JInt 2),
                      (''commentContent'', JInt 1), (''commentAuthor'', JInt 3)],
               JStr ''hi'', JStr ''bob'', JDict [(''username'', JInt 2)]])"
        by (auto simp: b)
      then show ?thesis by (auto simp: twin_candidates_1)
    next
      assume "q' = Suc (Suc 0)"
      with h twin_get_2 have "c' \<in> set (candidates ?items)"
        by (auto simp: b)
      with h show ?thesis
        by (auto simp: twin_candidates_2 comment_hash_def fmt_def twin_env_def)
    qed
  qed
  have h: "1 \<le> (2::nat) \<and> int 2 \<le> max_pages (sample_request 5 False)
        \<and> after_pages twin_env ?b 2 \<noteq> None
        \<and> requests_get twin_env (page_url ?b 2) = Some ?r
        \<and> nuxt_data ?r = Parsed (JList ?items) \<and> ?c \<in> set (candidates ?items)
        \<and> (\<forall>q' r' items' c'.
              1 \<le> q' \<and> q' \<le> 2 \<and> requests_get twin_env (page_url ?b q') = Some r'
              \<and> nuxt_data r' = Parsed (JList items') \<and> c' \<in> set (candidates items')
              \<and> comment_hash twin_env c' = comment_hash twin_env ?c \<longrightarrow>
              comment_author c' = comment_author ?c \<and> comment_date c' = comment_date ?c
              \<and> comment_text c' = comment_text ?c)"
  proof (intro conjI)
    show "after_pages twin_env ?b 2 \<noteq> None"
      using twin_after_2 by (simp add: b numeral_2_eq_2 del: after_pages.simps)
    show "requests_get twin_env (page_url ?b 2) = Some ?r"
      using twin_get_2 by (simp add: b numeral_2_eq_2)
    show "?c \<in> set (candidates ?items)" by (simp add: twin_candidates_2)
    show "int 2 \<le> max_pages (sample_request 5 False)" by (simp add: sample_request_def)
    show "\<forall>q' r' items' c'.
              1 \<le> q' \<and> q' \<le> 2 \<and> requests_get twin_env (page_url ?b q') = Some r'
              \<and> nuxt_data r' = Parsed (JList items') \<and> c' \<in> set (candidates items')
              \<and> comment_hash twin_env c' = comment_hash twin_env ?c \<longrightarrow>
              comment_author c' = comment_author ?c \<and> comment_date c' = comment_date ?c
              \<and> comment_text c' = comment_text ?c"
      using nc by blast
  qed simp_all
  from one_entry_for_each_triple [OF twin_scrape s]
  have d: "distinct (map comment_triple (result_comments ?res))"
    and a: "\<forall>q r items c.
             1 \<le> q \<and> int q \<le> max_pages (sample_request 5 False) \<and> after_pages twin_env ?b q \<noteq> None
             \<and> requests_get twin_env (page_url ?b q) = Some r
             \<and> nuxt_data r = Parsed (JList items) \<and> c \<in> set (candidates items)
             \<and> (\<forall>q' r' items' c'.
                   1 \<le> q' \<and> q' \<le> q
                   \<and> requests_get twin_env (page_url ?b q') = Some r'
                   \<and> nuxt_data r' = Parsed (JList items') \<and> c' \<in> set (candidates items')
                   \<and> comment_hash twin_env c' = comment_hash twin_env c \<longrightarrow>
                   comment_author c' = comment_author c \<and> comment_date c' = comment_date c
                   \<and> comment_text c' = comment_text c) \<longrightarrow>
             length (filter (\<lambda>j. comment_triple j
                                   = (Some (comment_author c), Some (comment_date c),
                                      Some (comment_text c)))
                       (result_comments ?res)) = 1"
    by (rule conjunct1, rule conjunct2)
  from a [rule_format, of 2 ?r ?items ?c, OF h]
  have "length (filter (\<lambda>j. comment_triple j = (Some (JStr ''bob''), Some (JStr []), Some (JStr ''hi'')))
                 (result_comments ?res)) = 1"
    by simp
  with d c twin_scrape show ?thesis by blast
qed

end
